theory Spec2Isabelle
  imports Complex_Main "HOL-Library.Signed_Division"
begin

section \<open>Metadynamics bias (src/bias/MetaD.cpp)\<close>

text \<open>
  A shallow embedding of the \<^verbatim>\<open>MetaD\<close> action. C++ \<^verbatim>\<open>double\<close> is modelled by
  \<^typ>\<open>real\<close> and the statements below are about exact arithmetic, with one exception:
  the operations that scale a height on its way to and from the hills file are rounded
  by a parameter (\<open>fl\<close>, the identity for exact arithmetic and \<open>round_double\<close> for
  binary64), because a property below turns on their being exact.
  \<^verbatim>\<open>unsigned\<close> loop counters and sizes are \<^typ>\<open>nat\<close>, \<^verbatim>\<open>int\<close> and
  \<^verbatim>\<open>long int\<close> values are \<^typ>\<open>int\<close> (no overflow occurs on the paths modelled).
  Fatal errors (\<^verbatim>\<open>error(...)\<close>, \<^verbatim>\<open>plumed_merror(...)\<close>) are the left summand of the
  result, carrying the message of the source. Members keep the names of the source without
  the trailing underscore (\<^verbatim>\<open>hills_\<close> is \<open>hills\<close>), which an Isabelle name cannot end in.
\<close>

subsection \<open>Data\<close>

definition DP2CUTOFF :: real where
  "DP2CUTOFF = 6.25"

record Gaussian =
  center :: "real list"
  sigma :: "real list"
  height :: real
  multivariate :: bool
  invsigma :: "real list"

text \<open>
  The constructor of \<^verbatim>\<open>Gaussian\<close>: \<^verbatim>\<open>invsigma\<close> starts as a copy of \<^verbatim>\<open>sigma\<close>, and
  each entry is replaced by its reciprocal when its absolute value exceeds \<^verbatim>\<open>1.e-20\<close>.
\<close>

definition Gaussian_ctor :: "real list \<Rightarrow> real list \<Rightarrow> real \<Rightarrow> bool \<Rightarrow> Gaussian" where
  "Gaussian_ctor c sg h mv =
     \<lparr>center = c, sigma = sg, height = h, multivariate = mv,
      invsigma = map (\<lambda>x. if \<bar>x\<bar> > 1 / 10 ^ 20 then 1 / x else x) sg\<rparr>"

datatype error = Fatal string | Crash string

datatype adaptive_kind = none | geometry | diffusion

text \<open>
  One record of a hills file, as \<^verbatim>\<open>IFile\<close> hands its fields to \<^verbatim>\<open>scanOneHill\<close>
  and as \<^verbatim>\<open>writeGaussian\<close> prints them. A CV field carries the value and, when the file
  declares the variable periodic, the two strings of its domain. The \<^verbatim>\<open>sigma_*\<close> fields
  are kept by name.
\<close>

record HillLine =
  f_time :: real
  f_args :: "(real \<times> (string \<times> string) option) list"
  f_multivariate :: string
  f_sigma :: "(string \<times> real) list"
  f_height :: real
  f_biasf :: real
  f_clock :: "int option"

text \<open>
  The collaborators of \<^verbatim>\<open>MetaD\<close> whose code is not part of the sources are parameters:
  the grid container (\<^verbatim>\<open>tools/Grid.h\<close>) over an abstract grid state \<^typ>\<open>'g\<close> with cell
  handles \<^typ>\<open>'c\<close> (the flat \<^verbatim>\<open>unsigned\<close> index of the source), the matrix routines of
  \<^verbatim>\<open>tools/Matrix.h\<close>, the CV-aware \<^verbatim>\<open>difference\<close> of the argument framework, the
  communicator's size, Boltzmann's constant, and the names and domains of the arguments
  (\<open>arg_domain\<close> is \<^const>\<open>None\<close> for an argument that is not periodic). \<open>newGrid\<close>
  stands for the constructors of \<^verbatim>\<open>Grid\<close> and \<^verbatim>\<open>SparseGrid\<close> (bounds, bins, spline,
  sparse). \<open>fl\<close> is the rounding of the result of one operation on doubles, applied in
  the scaling of heights only.
\<close>

record ('g, 'c) World =
  ncv :: nat
  arg_name :: "nat \<Rightarrow> string"
  arg_domain :: "nat \<Rightarrow> (string \<times> string) option"
  difference :: "nat \<Rightarrow> real \<Rightarrow> real \<Rightarrow> real"
  comm_size :: nat
  kBoltzmann :: real
  timeStep :: real
  Invert :: "real list list \<Rightarrow> real list list"
  cholesky :: "real list list \<Rightarrow> real list list"
  diagMat :: "real list list \<Rightarrow> real list \<times> real list list"
  getDx :: "'g \<Rightarrow> real list"
  getNeighbors :: "'g \<Rightarrow> real list \<Rightarrow> nat list \<Rightarrow> 'c list"
  getPoint :: "'g \<Rightarrow> 'c \<Rightarrow> real list"
  addValueAndDerivatives :: "'g \<Rightarrow> 'c \<Rightarrow> real \<Rightarrow> real list \<Rightarrow> 'g"
  getValue :: "'g \<Rightarrow> real list \<Rightarrow> real"
  getValueAndDerivatives :: "'g \<Rightarrow> real list \<Rightarrow> real \<times> real list"
  newGrid :: "string list \<Rightarrow> string list \<Rightarrow> nat list \<Rightarrow> bool \<Rightarrow> bool \<Rightarrow> 'g"
  fl :: "real \<Rightarrow> real"

text \<open>
  The members of \<^verbatim>\<open>MetaD\<close>. \<^verbatim>\<open>BiasGrid\<close> is \<^const>\<open>None\<close> for the null pointer.
  \<^verbatim>\<open>hillsOfile\<close> is the list of records printed so far; \<^verbatim>\<open>ifiles\<close> holds, for each
  walker's file, \<^const>\<open>None\<close> when it is not open and the number of records already
  consumed when it is. \<^verbatim>\<open>gridfile\<close> is the last grid dump written.
\<close>

record 'g MetaD =
  sigma0 :: "real list"
  hills :: "Gaussian list"
  hillsOfile :: "HillLine list"
  BiasGrid :: "'g option"
  wgridstride :: int
  grid :: bool
  height0 :: real
  biasf :: real
  temp :: real
  stride :: int
  welltemp :: bool
  adaptive :: adaptive_kind
  mw_n :: int
  mw_id :: int
  mw_rstride :: int
  ifiles :: "nat option list"
  uppI :: real
  lowI :: real
  doInt :: bool
  isFirstStep :: bool
  gridfile :: "'g option"

subsection \<open>evaluateGaussian\<close>

text \<open>
  The loops \<^verbatim>\<open>for i<ncv, for j=i..<ncv: mymatrix(i,j)=mymatrix(j,i)=hill.sigma[k]; k++\<close>
  recompose the symmetric matrix from its packed upper triangle; \<open>k\<close> runs along
  \<open>upper_pairs\<close>. (An entry past the end of the packed vector is an out-of-range read in
  the source; it is 0 here.)
\<close>

definition upper_pairs :: "nat \<Rightarrow> (nat \<times> nat) list" where
  "upper_pairs n = concat (map (\<lambda>i. map (\<lambda>j. (i, j)) [i..<n]) [0..<n])"

definition mymatrix :: "nat \<Rightarrow> real list \<Rightarrow> nat \<Rightarrow> nat \<Rightarrow> real" where
  "mymatrix n packed i j =
     (case map_of (zip (upper_pairs n) packed) (min i j, max i j) of
        Some v \<Rightarrow> v | None \<Rightarrow> 0)"

definition matrix_rows :: "nat \<Rightarrow> (nat \<Rightarrow> nat \<Rightarrow> real) \<Rightarrow> real list list" where
  "matrix_rows n m = map (\<lambda>i. map (\<lambda>j. m i j) [0..<n]) [0..<n]"

text \<open>The test \<^verbatim>\<open>(doInt && cv[0] > lowI && cv[0] < uppI) || (!doInt)\<close>.\<close>

definition interval_open :: "'g MetaD \<Rightarrow> real list \<Rightarrow> bool" where
  "interval_open s cv \<longleftrightarrow> (doInt s \<and> cv ! 0 > lowI s \<and> cv ! 0 < uppI s) \<or> \<not> doInt s"

text \<open>
  \<^verbatim>\<open>der[i] += c[i]\<close> for every \<open>i\<close> below the length of \<open>c\<close>; the rest of the buffer is
  untouched.
\<close>

definition add_into :: "real list \<Rightarrow> real list \<Rightarrow> real list" where
  "add_into der c = map (\<lambda>(d, x). d + x) (zip der c) @ drop (length c) der"

text \<open>
  The scratch buffer \<^verbatim>\<open>dp_\<close> is written for every index below \<^verbatim>\<open>cv.size()\<close> before it
  is read, so it is a local list here. The multivariate branch:
\<close>

definition dp_multi :: "('g, 'c) World \<Rightarrow> real list \<Rightarrow> Gaussian \<Rightarrow> real list" where
  "dp_multi w cv hill = map (\<lambda>i. difference w i (center hill ! i) (cv ! i)) [0..<length cv]"

definition dp2_multi :: "('g, 'c) World \<Rightarrow> real list \<Rightarrow> Gaussian \<Rightarrow> real" where
  "dp2_multi w cv hill =
     (let n = length cv; m = mymatrix n (sigma hill); dp = dp_multi w cv hill in
      sum_list (map (\<lambda>i. sum_list (map (\<lambda>j.
          if i = j then dp ! i * dp ! i * m i j * 0.5
          else dp ! i * difference w j (center hill ! j) (cv ! j) * m i j) [i..<n])) [0..<n]))"

text \<open>The diagonal branch: \<^verbatim>\<open>dp = difference(i,hill.center[i],cv[i])*hill.invsigma[i]\<close>.\<close>

definition dp_diag :: "('g, 'c) World \<Rightarrow> real list \<Rightarrow> Gaussian \<Rightarrow> real list" where
  "dp_diag w cv hill =
     map (\<lambda>i. difference w i (center hill ! i) (cv ! i) * invsigma hill ! i) [0..<length cv]"

definition dp2_diag :: "('g, 'c) World \<Rightarrow> real list \<Rightarrow> Gaussian \<Rightarrow> real" where
  "dp2_diag w cv hill = sum_list (map (\<lambda>d. d * d) (dp_diag w cv hill)) * 0.5"

text \<open>The value returned (\<^verbatim>\<open>bias\<close>) and what is added to \<^verbatim>\<open>der\<close>.\<close>

definition gauss_bias :: "('g, 'c) World \<Rightarrow> 'g MetaD \<Rightarrow> real list \<Rightarrow> Gaussian \<Rightarrow> real" where
  "gauss_bias w s cv hill =
     (let dp2 = (if multivariate hill then dp2_multi w cv hill else dp2_diag w cv hill) in
      if dp2 < DP2CUTOFF then
        (if interval_open s cv then height hill * exp (- dp2) else 0)
      else 0)"

definition gauss_der :: "('g, 'c) World \<Rightarrow> 'g MetaD \<Rightarrow> real list \<Rightarrow> Gaussian \<Rightarrow> real list" where
  "gauss_der w s cv hill =
     (let n = length cv; bias = gauss_bias w s cv hill in
      if multivariate hill then
        (if dp2_multi w cv hill < DP2CUTOFF \<and> interval_open s cv then
           map (\<lambda>i. - sum_list (map (\<lambda>j.
               dp_multi w cv hill ! j * mymatrix n (sigma hill) i j * bias) [0..<n])) [0..<n]
         else replicate n 0)
      else
        (if dp2_diag w cv hill < DP2CUTOFF \<and> interval_open s cv then
           map (\<lambda>i. - bias * dp_diag w cv hill ! i * invsigma hill ! i) [0..<n]
         else replicate n 0))"

definition evaluateGaussian ::
  "('g, 'c) World \<Rightarrow> 'g MetaD \<Rightarrow> real list \<Rightarrow> Gaussian \<Rightarrow> real list option \<Rightarrow> real \<times> real list option"
  where
  "evaluateGaussian w s cv hill der =
     (gauss_bias w s cv hill,
      case der of None \<Rightarrow> None | Some d \<Rightarrow> Some (add_into d (gauss_der w s cv hill)))"

subsection \<open>getBiasAndDerivatives and calculate\<close>

text \<open>
  The indices visited by \<^verbatim>\<open>for(unsigned i=rank;i<n;i+=stride)\<close>. The communicator has at
  least one member, so the stride is positive; with a zero stride the list is empty.
\<close>

function strided :: "nat \<Rightarrow> nat \<Rightarrow> nat \<Rightarrow> nat list" where
  "strided P n i = (if i < n \<and> 0 < P then i # strided P n (i + P) else [])"
  by pat_completeness auto
termination
  by (relation "measure (\<lambda>(P, n, i). n - i)") auto

declare strided.simps [simp del]

text \<open>
  The list-mode loop of one worker: \<^verbatim>\<open>bias+=evaluateGaussian(cv,hills[i],der)\<close> over its
  share of the hills.
\<close>

definition local_bias ::
  "('g, 'c) World \<Rightarrow> 'g MetaD \<Rightarrow> real list \<Rightarrow> real list option \<Rightarrow> nat \<Rightarrow> real \<times> real list option"
  where
  "local_bias w s cv der rank =
     fold (\<lambda>i (b, d). let (v, d') = evaluateGaussian w s cv (hills s ! i) d in (b + v, d'))
       (strided (comm_size w) (length (hills s)) rank) (0, der)"

text \<open>
  \<^verbatim>\<open>comm.Sum\<close> (not part of the sources) is modelled as the global sum reduction it
  names: every worker ends with the sum over all ranks of the workers' local buffers.
\<close>

definition comm_Sum :: "nat \<Rightarrow> (nat \<Rightarrow> real) \<Rightarrow> real" where
  "comm_Sum P f = sum_list (map f [0..<P])"

definition comm_Sum_vec :: "nat \<Rightarrow> nat \<Rightarrow> (nat \<Rightarrow> real list) \<Rightarrow> real list" where
  "comm_Sum_vec P n f = map (\<lambda>j. comm_Sum P (\<lambda>r. f r ! j)) [0..<n]"

definition getBiasAndDerivatives ::
  "('g, 'c) World \<Rightarrow> 'g MetaD \<Rightarrow> real list \<Rightarrow> real list option \<Rightarrow> real \<times> real list option"
  where
  "getBiasAndDerivatives w s cv der =
     (if \<not> grid s then
        (comm_Sum (comm_size w) (\<lambda>r. fst (local_bias w s cv der r)),
         case der of None \<Rightarrow> None
         | Some d \<Rightarrow> Some (comm_Sum_vec (comm_size w) (ncv w)
                            (\<lambda>r. the (snd (local_bias w s cv der r)))))
      else
        (case der of
           Some d \<Rightarrow>
             (let (bias, vder) = getValueAndDerivatives w (the (BiasGrid s)) cv in
              (bias, Some (if interval_open s cv then take (ncv w) vder @ drop (ncv w) d else d)))
         | None \<Rightarrow> (getValue w (the (BiasGrid s)) cv, None)))"

text \<open>
  \<^verbatim>\<open>calculate\<close>: the derivative buffer starts at zero; the result is the bias component
  and the output forces \<^verbatim>\<open>-der[i]\<close>.
\<close>

definition calculate :: "('g, 'c) World \<Rightarrow> 'g MetaD \<Rightarrow> real list \<Rightarrow> real \<times> real list" where
  "calculate w s cv =
     (let (ene, der) = getBiasAndDerivatives w s cv (Some (replicate (ncv w) 0)) in
      (ene, map (\<lambda>i. - (the der ! i)) [0..<ncv w]))"

subsection \<open>getHeight\<close>

definition getHeight :: "('g, 'c) World \<Rightarrow> 'g MetaD \<Rightarrow> real list \<Rightarrow> real" where
  "getHeight w s cv =
     (if welltemp s then
        (let vbias = fst (getBiasAndDerivatives w s cv None) in
         height0 s * exp (- vbias / (kBoltzmann w * temp s * (biasf s - 1))))
      else height0 s)"

subsection \<open>getGaussianSupport and addGaussian\<close>

text \<open>
  The search for the largest eigenvalue: \<^verbatim>\<open>maxautoval=0.; ind_maxautoval=ncv;\<close> and then
  \<^verbatim>\<open>if(myautoval[i]>maxautoval){maxautoval=myautoval[i];ind_maxautoval=i;}\<close>.
\<close>

definition max_autoval :: "nat \<Rightarrow> real list \<Rightarrow> real \<times> nat" where
  "max_autoval n myautoval =
     fold (\<lambda>i (m, k). if myautoval ! i > m then (myautoval ! i, i) else (m, k)) [0..<n] (0, n)"

text \<open>
  \<^verbatim>\<open>static_cast<unsigned>(ceil(x))\<close>. When \<open>\<lceil>x\<rceil>\<close> is in the range of a 32-bit \<^verbatim>\<open>unsigned\<close>
  the result is that integer. Outside the range the conversion is undefined in C++; the
  model takes the low 32 bits of the integer, which is what the conversion through a
  64-bit integer register gives on x86-64 (so \<open>-3\<close> becomes \<open>4294967293\<close>). The
  properties below that depend on the half-widths say in which range they hold.
\<close>

definition unsigned_ceil :: "real \<Rightarrow> nat" where
  "unsigned_ceil x = nat (\<lceil>x\<rceil> mod 2 ^ 32)"

definition getGaussianSupport :: "('g, 'c) World \<Rightarrow> 'g \<Rightarrow> Gaussian \<Rightarrow> nat list" where
  "getGaussianSupport w g hill =
     (if multivariate hill then
        (let n = ncv w;
             myinv = Invert w (matrix_rows n (mymatrix n (sigma hill)));
             (myautoval, myautovec) = diagMat w myinv;
             (maxautoval, ind_maxautoval) = max_autoval n myautoval
         in map (\<lambda>i. unsigned_ceil (sqrt (2 * DP2CUTOFF)
                          * \<bar>sqrt maxautoval * (myautovec ! i ! ind_maxautoval)\<bar>
                          / getDx w g ! i)) [0..<n])
      else
        map (\<lambda>i. unsigned_ceil (sqrt (2 * DP2CUTOFF) * sigma hill ! i / getDx w g ! i))
          [0..<ncv w])"

text \<open>
  What one worker computes in the parallel branch of \<^verbatim>\<open>addGaussian\<close>: the entries of
  \<^verbatim>\<open>allbias\<close> and the \<^verbatim>\<open>ncv\<close>-slices of \<^verbatim>\<open>allder\<close> at the positions of its share,
  zero elsewhere.
\<close>

definition local_splat ::
  "('g, 'c) World \<Rightarrow> 'g MetaD \<Rightarrow> 'g \<Rightarrow> Gaussian \<Rightarrow> 'c list \<Rightarrow> nat \<Rightarrow> (real \<times> real list) list"
  where
  "local_splat w s g hill neighbors rank =
     map (\<lambda>i. if i \<in> set (strided (comm_size w) (length neighbors) rank) then
                 (let (b, d) = evaluateGaussian w s (getPoint w g (neighbors ! i)) hill
                                 (Some (replicate (ncv w) 0))
                  in (b, the d))
               else (0, replicate (ncv w) 0))
       [0..<length neighbors]"

definition addGaussian :: "('g, 'c) World \<Rightarrow> 'g MetaD \<Rightarrow> Gaussian \<Rightarrow> 'g MetaD" where
  "addGaussian w s hill =
     (if \<not> grid s then s\<lparr>hills := hills s @ [hill]\<rparr>
      else
        (let g = the (BiasGrid s);
             nneighb = getGaussianSupport w g hill;
             neighbors = getNeighbors w g (center hill) nneighb
         in if comm_size w = 1 then
              s\<lparr>BiasGrid := Some (fold (\<lambda>ineigh g'.
                    let xx = getPoint w g' ineigh;
                        (bias, der) = evaluateGaussian w s xx hill (Some (replicate (ncv w) 0))
                    in addValueAndDerivatives w g' ineigh bias (the der)) neighbors g)\<rparr>
            else
              (let allbias = (\<lambda>i. comm_Sum (comm_size w)
                                (\<lambda>r. fst (local_splat w s g hill neighbors r ! i)));
                   allder = (\<lambda>i. comm_Sum_vec (comm_size w) (ncv w)
                                (\<lambda>r. snd (local_splat w s g hill neighbors r ! i)))
               in s\<lparr>BiasGrid := Some (fold (\<lambda>i g'.
                     addValueAndDerivatives w g' (neighbors ! i) (allbias i) (allder i))
                     [0..<length neighbors] g)\<rparr>)))"

subsection \<open>The hills file: writeGaussian, scanOneHill, readGaussians\<close>

text \<open>
  \<^verbatim>\<open>for i, for j=i..<ncv: invmatrix(i,j)=invmatrix(j,i)\<close>: the upper triangle is
  overwritten by the lower one.
\<close>

definition enforce_symmetry :: "nat \<Rightarrow> real list list \<Rightarrow> real list list" where
  "enforce_symmetry n m = matrix_rows n (\<lambda>i j. m ! (max i j) ! (min i j))"

definition sigma_name :: "('g, 'c) World \<Rightarrow> nat \<Rightarrow> string" where
  "sigma_name w i = ''sigma_'' @ arg_name w i"

definition sigma_name2 :: "('g, 'c) World \<Rightarrow> nat \<Rightarrow> nat \<Rightarrow> string" where
  "sigma_name2 w a b = ''sigma_'' @ arg_name w a @ ''_'' @ arg_name w b"

text \<open>
  The scaling of the height in \<^verbatim>\<open>writeGaussian\<close>,
  \<^verbatim>\<open>if(welltemp_){height*=biasf_/(biasf_-1.0);}\<close>, and its counterpart in
  \<^verbatim>\<open>readGaussians\<close>, \<^verbatim>\<open>if(welltemp_){height*=(biasf_-1.0)/biasf_;}\<close>. Each is a
  subtraction, a division and a multiplication on doubles, and the result of each is
  rounded.
\<close>

definition written_height :: "('g, 'c) World \<Rightarrow> 'g MetaD \<Rightarrow> real \<Rightarrow> real" where
  "written_height w s h =
     (if welltemp s then fl w (h * fl w (biasf s / fl w (biasf s - 1))) else h)"

definition read_height :: "('g, 'c) World \<Rightarrow> 'g MetaD \<Rightarrow> real \<Rightarrow> real" where
  "read_height w s h =
     (if welltemp s then fl w (h * fl w (fl w (biasf s - 1) / biasf s)) else h)"

text \<open>
  \<^verbatim>\<open>writeGaussian\<close> returns the record it prints; \<open>step\<close> is \<^verbatim>\<open>getStep()\<close> and
  \<open>clk\<close> is \<^verbatim>\<open>int(time(0))\<close>. The periodicity of each argument was set up for printing by
  the constructor (\<^verbatim>\<open>setupPrintValue\<close>).
\<close>

definition writeGaussian ::
  "('g, 'c) World \<Rightarrow> 'g MetaD \<Rightarrow> int \<Rightarrow> int \<Rightarrow> Gaussian \<Rightarrow> HillLine" where
  "writeGaussian w s step clk hill =
     (let n = ncv w in
      \<lparr>f_time = timeStep w * of_int step,
       f_args = map (\<lambda>i. (center hill ! i, arg_domain w i)) [0..<n],
       f_multivariate = (if multivariate hill then ''true'' else ''false''),
       f_sigma =
         (if multivariate hill then
            (let invmatrix = enforce_symmetry n
                               (Invert w (matrix_rows n (mymatrix n (sigma hill))));
                 lower = cholesky w invmatrix
             in concat (map (\<lambda>i. map (\<lambda>j. (sigma_name2 w (j + i) j, lower ! (j + i) ! j))
                                    [0..<n - i]) [0..<n]))
          else map (\<lambda>i. (sigma_name w i, sigma hill ! i)) [0..<n]),
       f_height = written_height w s (height hill),
       f_biasf = biasf s,
       f_clock = (if mw_n s > 1 then Some clk else None)\<rparr>)"

text \<open>
  The periodicity test of \<^verbatim>\<open>scanOneHill\<close> for argument \<open>i\<close>. A record with no field for
  the argument is refused by \<^verbatim>\<open>IFile\<close>.
\<close>

definition periodicity_error :: "('g, 'c) World \<Rightarrow> HillLine \<Rightarrow> nat \<Rightarrow> error option" where
  "periodicity_error w line i =
     (if length (f_args line) \<le> i then Some (Fatal (''field '' @ arg_name w i @ '' not found''))
      else
        (case snd (f_args line ! i) of
           Some (imin, imax) \<Rightarrow>
             (case arg_domain w i of
                None \<Rightarrow> Some (Fatal (''in hills file periodicity for variable '' @ arg_name w i
                                      @ '' does not match periodicity in input''))
              | Some (rmin, rmax) \<Rightarrow>
                  (if imin \<noteq> rmin \<or> imax \<noteq> rmax
                   then Some (Fatal (''in hills file periodicity for variable '' @ arg_name w i
                                      @ '' does not match periodicity in input''))
                   else None))
         | None \<Rightarrow> None))"

text \<open>\<^verbatim>\<open>mult\<close> of \<^verbatim>\<open>tools/Matrix.h\<close> is the matrix product.\<close>

definition mult :: "nat \<Rightarrow> real list list \<Rightarrow> real list list \<Rightarrow> real list list" where
  "mult n a b = matrix_rows n (\<lambda>i j. sum_list (map (\<lambda>k. a ! i ! k * b ! k ! j) [0..<n]))"

text \<open>
  The first \<^verbatim>\<open>sigma_*\<close> field that the record lacks, if any, among the names given.
\<close>

definition missing_field :: "HillLine \<Rightarrow> string list \<Rightarrow> string option" where
  "missing_field line names = List.find (\<lambda>nm. map_of (f_sigma line) nm = None) names"

definition sigma_field :: "HillLine \<Rightarrow> string \<Rightarrow> real" where
  "sigma_field line nm = (case map_of (f_sigma line) nm of Some v \<Rightarrow> v | None \<Rightarrow> 0)"

text \<open>
  \<^verbatim>\<open>scanOneHill\<close> on a record that is there (the end of the file, where
  \<^verbatim>\<open>scanField("time",dummy)\<close> is false, is the empty list of \<open>readGaussians_loop\<close>).
  \<open>center0\<close> and \<open>sigma0v\<close> are the caller's vectors, which the function overwrites; the
  result is the new \<^verbatim>\<open>center\<close>, \<^verbatim>\<open>sigma\<close>, \<^verbatim>\<open>height\<close> and \<^verbatim>\<open>multivariate\<close>.
\<close>

definition scanOneHill ::
  "('g, 'c) World \<Rightarrow> HillLine \<Rightarrow> real list \<Rightarrow> real list
     \<Rightarrow> error + (real list \<times> real list \<times> real \<times> bool)" where
  "scanOneHill w line center0 sigma0v =
     (let n = ncv w in
      case List.find (\<lambda>i. periodicity_error w line i \<noteq> None) [0..<n] of
        Some i \<Rightarrow> Inl (the (periodicity_error w line i))
      | None \<Rightarrow>
          (let centerv = map (\<lambda>i. fst (f_args line ! i)) [0..<n] @ drop n center0;
               sss = f_multivariate line
           in if sss \<noteq> ''true'' \<and> sss \<noteq> ''false''
              then Inl (Fatal (''cannot parse multivariate = '' @ sss))
              else if sss = ''true'' then
                (case missing_field line
                        (concat (map (\<lambda>i. map (\<lambda>j. sigma_name2 w (j + i) j) [0..<n - i]) [0..<n])) of
                   Some nm \<Rightarrow> Inl (Fatal (''field '' @ nm @ '' not found''))
                 | None \<Rightarrow>
                     (let lower = matrix_rows n (\<lambda>a b.
                                    if b \<le> a then sigma_field line (sigma_name2 w a b) else 0);
                          upper = matrix_rows n (\<lambda>a b.
                                    if a \<le> b then sigma_field line (sigma_name2 w b a) else 0);
                          invmatrix = Invert w (mult n lower upper)
                      in Inr (centerv, map (\<lambda>(i, j). invmatrix ! i ! j) (upper_pairs n),
                              f_height line, True)))
              else
                (case missing_field line (map (sigma_name w) [0..<n]) of
                   Some nm \<Rightarrow> Inl (Fatal (''field '' @ nm @ '' not found''))
                 | None \<Rightarrow>
                     Inr (centerv,
                          map (\<lambda>i. sigma_field line (sigma_name w i)) [0..<n] @ drop n sigma0v,
                          f_height line, False))))"

fun readGaussians_loop ::
  "('g, 'c) World \<Rightarrow> 'g MetaD \<Rightarrow> real list \<Rightarrow> real list \<Rightarrow> HillLine list \<Rightarrow> error + 'g MetaD"
  where
  "readGaussians_loop w s centerv sigmav [] = Inr s"
| "readGaussians_loop w s centerv sigmav (line # rest) =
     (case scanOneHill w line centerv sigmav of
        Inl e \<Rightarrow> Inl e
      | Inr (centerv', sigmav', h, mv) \<Rightarrow>
          readGaussians_loop w
            (addGaussian w s (Gaussian_ctor centerv' sigmav' (read_height w s h) mv))
            centerv' sigmav' rest)"

text \<open>\<^verbatim>\<open>readGaussians\<close> on the records of a file that have not been consumed yet.\<close>

definition readGaussians ::
  "('g, 'c) World \<Rightarrow> 'g MetaD \<Rightarrow> HillLine list \<Rightarrow> error + 'g MetaD" where
  "readGaussians w s lines =
     readGaussians_loop w s (replicate (ncv w) 0) (replicate (ncv w) 0) lines"


subsection \<open>update\<close>

text \<open>
  What the host supplies at one call of \<^verbatim>\<open>update\<close>: the step number, the values of the
  arguments, the packed inverse matrix the adaptive-width estimator would return
  (\<^verbatim>\<open>flexbin->getInverseMatrix()\<close>; the estimator is not part of the sources), the wall
  clock, and the hills files that exist, each with its records.
\<close>

record StepIn =
  getStep :: int
  getArgument :: "real list"
  getInverseMatrix :: "real list"
  wallclock :: int
  hillsfiles :: "nat \<Rightarrow> HillLine list option"

text \<open>
  The deposition: \<^verbatim>\<open>getHeight\<close> on the state as it is, then the new hill is built,
  added and printed.
\<close>

definition nowAddAHill :: "'g MetaD \<Rightarrow> StepIn \<Rightarrow> bool" where
  "nowAddAHill s inp \<longleftrightarrow> getStep inp smod stride s = 0 \<and> \<not> isFirstStep s"

definition newhill :: "('g, 'c) World \<Rightarrow> 'g MetaD \<Rightarrow> StepIn \<Rightarrow> Gaussian" where
  "newhill w s inp =
     (let cv = getArgument inp;
          h = getHeight w s cv;
          thissigma = (if adaptive s \<noteq> none then getInverseMatrix inp else sigma0 s)
      in Gaussian_ctor cv thissigma h (adaptive s \<noteq> none))"

definition deposit :: "('g, 'c) World \<Rightarrow> 'g MetaD \<Rightarrow> StepIn \<Rightarrow> 'g MetaD" where
  "deposit w s inp =
     (if nowAddAHill s inp then
        (let hill = newhill w s inp;
             s' = addGaussian w s hill
         in s'\<lparr>hillsOfile := hillsOfile s'
                  @ [writeGaussian w s' (getStep inp) (wallclock inp) hill]\<rparr>)
      else s\<lparr>isFirstStep := False\<rparr>)"

text \<open>
  The grid dump: \<^verbatim>\<open>BiasGrid->writeToFile\<close> through a null pointer when no grid was
  configured is a crash.
\<close>

definition dump_grid :: "'g MetaD \<Rightarrow> StepIn \<Rightarrow> error + 'g MetaD" where
  "dump_grid s inp =
     (if wgridstride s > 0 \<and> getStep inp smod wgridstride s = 0 then
        (case BiasGrid s of
           None \<Rightarrow> Inl (Crash ''BiasGrid is null'')
         | Some g \<Rightarrow> Inr (s\<lparr>gridfile := Some g\<rparr>))
      else Inr s)"

text \<open>
  The loop over the walkers' files: the walker's own file is skipped; a file that is not
  open yet is opened when it exists; an open file is read from where the last reading
  stopped.
\<close>

fun read_walkers ::
  "('g, 'c) World \<Rightarrow> StepIn \<Rightarrow> nat list \<Rightarrow> 'g MetaD \<Rightarrow> error + 'g MetaD" where
  "read_walkers w inp [] s = Inr s"
| "read_walkers w inp (i # rest) s =
     (if int i = mw_id s then read_walkers w inp rest s
      else
        (case ifiles s ! i of
           None \<Rightarrow>
             (if hillsfiles inp i \<noteq> None
              then read_walkers w inp rest (s\<lparr>ifiles := (ifiles s)[i := Some 0]\<rparr>)
              else read_walkers w inp rest s)
         | Some k \<Rightarrow>
             (let lines = (case hillsfiles inp i of None \<Rightarrow> [] | Some ls \<Rightarrow> ls) in
              case readGaussians w s (drop k lines) of
                Inl e \<Rightarrow> Inl e
              | Inr s' \<Rightarrow>
                  read_walkers w inp rest (s'\<lparr>ifiles := (ifiles s')[i := Some (max k (length lines))]\<rparr>))))"

definition update :: "('g, 'c) World \<Rightarrow> 'g MetaD \<Rightarrow> StepIn \<Rightarrow> error + 'g MetaD" where
  "update w s inp =
     (case dump_grid (deposit w s inp) inp of
        Inl e \<Rightarrow> Inl e
      | Inr s1 \<Rightarrow>
          (if mw_n s1 > 1 then
             (if mw_rstride s1 = 0 then Inl (Crash ''remainder by zero'')
              else if getStep inp smod mw_rstride s1 = 0
              then read_walkers w inp [0..<nat (mw_n s1)] s1
              else Inr s1)
           else Inr s1))"

subsection \<open>The constructor\<close>

text \<open>
  The keywords of the input line after parsing. An optional keyword that is absent is
  \<^const>\<open>None\<close>; an absent vector is empty. \<open>kw_restart\<close> is \<^verbatim>\<open>plumed.getRestart()\<close> and
  \<open>kw_files\<close> the hills files that exist when the action is created.
\<close>

record Options =
  kw_ADAPTIVE :: "string option"
  kw_SIGMA :: "real list"
  kw_HEIGHT :: real
  kw_PACE :: int
  kw_BIASFACTOR :: "real option"
  kw_TEMP :: "real option"
  kw_GRID_MIN :: "string list"
  kw_GRID_MAX :: "string list"
  kw_GRID_BIN :: "nat list"
  kw_GRID_SPARSE :: bool
  kw_GRID_NOSPLINE :: bool
  kw_GRID_WSTRIDE :: "int option"
  kw_GRID_WFILE :: "string option"
  kw_WALKERS_N :: "int option"
  kw_WALKERS_ID :: "int option"
  kw_WALKERS_RSTRIDE :: "int option"
  kw_UPPER_INTERVAL :: "real option"
  kw_LOWER_INTERVAL :: "real option"
  kw_restart :: bool
  kw_files :: "nat \<Rightarrow> HillLine list option"

definition or_default :: "'a option \<Rightarrow> 'a \<Rightarrow> 'a" where
  "or_default v d = (case v of None \<Rightarrow> d | Some x \<Rightarrow> x)"

text \<open>
  The checks of the constructor, in the order of the source; the first one that fails
  ends the run. The result is the members they determine.
\<close>

definition parse_adaptive :: "Options \<Rightarrow> error + adaptive_kind" where
  "parse_adaptive opts =
     (let adaptiveoption = or_default (kw_ADAPTIVE opts) ''NONE'' in
      if adaptiveoption = ''GEOM'' then Inr geometry
      else if adaptiveoption = ''DIFF'' then Inr diffusion
      else if adaptiveoption = ''NONE'' then Inr none
      else Inl (Fatal ''I do not know this type of adaptive scheme''))"

definition check_basic :: "('g, 'c) World \<Rightarrow> Options \<Rightarrow> adaptive_kind \<Rightarrow> error option" where
  "check_basic w opts ad =
     (if ad = none \<and> length (kw_SIGMA opts) \<noteq> ncv w
        then Some (Fatal ''number of arguments does not match number of SIGMA parameters'')
      else if ad \<noteq> none \<and> length (kw_SIGMA opts) \<noteq> 1
        then Some (Fatal ''If you choose ADAPTIVE you need only one sigma according to your choice of type (GEOM/DIFF)'')
      else if kw_HEIGHT opts \<le> 0
        then Some (Fatal ''error cannot add zero height or negative height hills'')
      else if kw_PACE opts \<le> 0
        then Some (Fatal ''frequency for hill addition is nonsensical'')
      else if or_default (kw_BIASFACTOR opts) 1 < 1
        then Some (Fatal ''well tempered bias factor is nonsensical'')
      else if or_default (kw_BIASFACTOR opts) 1 > 1 \<and> or_default (kw_TEMP opts) 0 = 0
        then Some (Fatal ''if you are doing well tempered metadynamics you must specify the temperature using TEMP'')
      else None)"

definition check_grid :: "('g, 'c) World \<Rightarrow> Options \<Rightarrow> error option" where
  "check_grid w opts =
     (let gmin = kw_GRID_MIN opts; gmax = kw_GRID_MAX opts; gbin = kw_GRID_BIN opts;
          is_grid = (length gbin > 0);
          wstride = or_default (kw_GRID_WSTRIDE opts) 0;
          gridfilename = or_default (kw_GRID_WFILE opts) ''''
      in if length gmin \<noteq> ncv w \<and> length gmin \<noteq> 0
           then Some (Fatal ''not enough values for GRID_MIN'')
         else if length gmax \<noteq> ncv w \<and> length gmax \<noteq> 0
           then Some (Fatal ''not enough values for GRID_MAX'')
         else if length gbin \<noteq> ncv w \<and> length gbin \<noteq> 0
           then Some (Fatal ''not enough values for GRID_BIN'')
         else if length gmin \<noteq> length gmax \<or> length gmin \<noteq> length gbin
           then Some (Fatal ''GRID MIN was specified without either GRID_MAX or GRID_BIN'')
         else if is_grid \<and> length gridfilename > 0 \<and> wstride = 0
           then Some (Fatal ''frequency with which to output grid not specified use GRID_WSTRIDE'')
         else if is_grid \<and> wstride > 0 \<and> length gridfilename = 0
           then Some (Fatal ''grid filename not specified use GRID_WFILE'')
         else None)"

definition check_walkers :: "Options \<Rightarrow> error option" where
  "check_walkers opts =
     (if or_default (kw_WALKERS_N opts) 1 \<le> or_default (kw_WALKERS_ID opts) 0
      then Some (Fatal ''walker ID should be a numerical value less than the total number of walkers'')
      else None)"

definition check_interval :: "Options \<Rightarrow> error option" where
  "check_interval opts =
     (let upp = or_default (kw_UPPER_INTERVAL opts) (- 1);
          low = or_default (kw_LOWER_INTERVAL opts) (- 1)
      in if upp \<noteq> low then
           (if length (kw_SIGMA opts) \<noteq> 1
              then Some (Fatal ''Bias limits correction works only for monodimensional metadynamics!'')
            else if upp < low
              then Some (Fatal ''The Upper limit must be greater than the Lower limit!'')
            else None)
         else None)"

text \<open>The members after the checks, before any hills file is read.\<close>

definition initial_state :: "('g, 'c) World \<Rightarrow> Options \<Rightarrow> adaptive_kind \<Rightarrow> 'g MetaD" where
  "initial_state w opts ad =
     (let upp = or_default (kw_UPPER_INTERVAL opts) (- 1);
          low = or_default (kw_LOWER_INTERVAL opts) (- 1);
          is_grid = (length (kw_GRID_BIN opts) > 0);
          spline = (\<not> kw_GRID_NOSPLINE opts \<and> upp = low)
      in \<lparr>sigma0 = kw_SIGMA opts,
          hills = [],
          hillsOfile = [],
          BiasGrid = (if is_grid
                      then Some (newGrid w (kw_GRID_MIN opts) (kw_GRID_MAX opts) (kw_GRID_BIN opts)
                                   spline (kw_GRID_SPARSE opts))
                      else None),
          wgridstride = or_default (kw_GRID_WSTRIDE opts) 0,
          grid = is_grid,
          height0 = kw_HEIGHT opts,
          biasf = or_default (kw_BIASFACTOR opts) 1,
          temp = or_default (kw_TEMP opts) 0,
          stride = kw_PACE opts,
          welltemp = (or_default (kw_BIASFACTOR opts) 1 > 1),
          adaptive = ad,
          mw_n = or_default (kw_WALKERS_N opts) 1,
          mw_id = or_default (kw_WALKERS_ID opts) 0,
          mw_rstride = or_default (kw_WALKERS_RSTRIDE opts) 1,
          ifiles = [],
          uppI = upp,
          lowI = low,
          doInt = (upp \<noteq> low),
          isFirstStep = True,
          gridfile = None\<rparr>)"

text \<open>
  The loop that opens the hills file of every walker: an existing file is opened, read
  to its end on a restart, and the walker's own file is closed again for writing.
\<close>

fun open_files ::
  "('g, 'c) World \<Rightarrow> Options \<Rightarrow> nat list \<Rightarrow> 'g MetaD \<Rightarrow> error + 'g MetaD" where
  "open_files w opts [] s = Inr s"
| "open_files w opts (i # rest) s =
     (case kw_files opts i of
        None \<Rightarrow> open_files w opts rest (s\<lparr>ifiles := ifiles s @ [None]\<rparr>)
      | Some lines \<Rightarrow>
          (case (if kw_restart opts then readGaussians w s lines else Inr s) of
             Inl e \<Rightarrow> Inl e
           | Inr s' \<Rightarrow>
               open_files w opts rest
                 (s'\<lparr>ifiles := ifiles s' @
                    [if int i = mw_id s' then None
                     else Some (if kw_restart opts then length lines else 0)]\<rparr>)))"

definition config_error :: "('g, 'c) World \<Rightarrow> Options \<Rightarrow> adaptive_kind \<Rightarrow> error option" where
  "config_error w opts ad =
     (case check_basic w opts ad of
        Some e \<Rightarrow> Some e
      | None \<Rightarrow>
          (case check_grid w opts of
             Some e \<Rightarrow> Some e
           | None \<Rightarrow>
               (case check_walkers opts of
                  Some e \<Rightarrow> Some e
                | None \<Rightarrow> check_interval opts)))"

definition MetaD_ctor :: "('g, 'c) World \<Rightarrow> Options \<Rightarrow> error + 'g MetaD" where
  "MetaD_ctor w opts =
     (case parse_adaptive opts of
        Inl e \<Rightarrow> Inl e
      | Inr ad \<Rightarrow>
          (case config_error w opts ad of
             Some e \<Rightarrow> Inl e
           | None \<Rightarrow>
               (let s = initial_state w opts ad in
                open_files w opts [0..<nat (mw_n s)] s)))"

subsection \<open>A dense grid and a plain world, for examples\<close>

text \<open>
  Modelled from the spec: the grid container (\<^verbatim>\<open>tools/Grid.h\<close> is not part of the
  sources). The spec describes it as a fixed mesh over CV space with bounds and a bin
  count per axis, each cell an accumulator of a value and per-axis derivatives that is
  updated additively; evaluation is a lookup of the cell of the query point
  (interpolation is off under the interval restriction); the neighbourhood of a point is
  the box of cells within the given number of cells per axis of the point's cell. This
  grid is dense, has no periodic axis and no spline. A cell handle is the list of the
  cell's indices; \<open>g_cells\<close> holds the cells written so far, the latest entry first.
\<close>

record DenseGrid =
  g_min :: "real list"
  g_dx :: "real list"
  g_nbin :: "nat list"
  g_cells :: "(nat list \<times> real \<times> real list) list"

definition dg_index :: "DenseGrid \<Rightarrow> real list \<Rightarrow> nat list" where
  "dg_index g x =
     map (\<lambda>i. nat \<lfloor>(x ! i - g_min g ! i) / g_dx g ! i\<rfloor>) [0..<length (g_nbin g)]"

definition dg_getNeighbors :: "DenseGrid \<Rightarrow> real list \<Rightarrow> nat list \<Rightarrow> nat list list" where
  "dg_getNeighbors g x nneigh =
     (let c = dg_index g x in
      product_lists (map (\<lambda>i. filter (\<lambda>k. k < g_nbin g ! i)
                                 [c ! i - nneigh ! i ..< c ! i + nneigh ! i + 1])
                         [0..<length (g_nbin g)]))"

definition dg_getPoint :: "DenseGrid \<Rightarrow> nat list \<Rightarrow> real list" where
  "dg_getPoint g idx =
     map (\<lambda>i. g_min g ! i + real (idx ! i) * g_dx g ! i) [0..<length (g_nbin g)]"

definition dg_cell :: "DenseGrid \<Rightarrow> nat list \<Rightarrow> real \<times> real list" where
  "dg_cell g idx =
     (case map_of (g_cells g) idx of
        Some c \<Rightarrow> c | None \<Rightarrow> (0, replicate (length (g_nbin g)) 0))"

definition dg_addValueAndDerivatives ::
  "DenseGrid \<Rightarrow> nat list \<Rightarrow> real \<Rightarrow> real list \<Rightarrow> DenseGrid" where
  "dg_addValueAndDerivatives g idx v der =
     (let c = dg_cell g idx in
      g\<lparr>g_cells := (idx, fst c + v, map (\<lambda>(a, b). a + b) (zip (snd c) der)) # g_cells g\<rparr>)"

definition dg_getValue :: "DenseGrid \<Rightarrow> real list \<Rightarrow> real" where
  "dg_getValue g x = fst (dg_cell g (dg_index g x))"

definition dg_getValueAndDerivatives :: "DenseGrid \<Rightarrow> real list \<Rightarrow> real \<times> real list" where
  "dg_getValueAndDerivatives g x = dg_cell g (dg_index g x)"

text \<open>
  \<^verbatim>\<open>difference\<close> for arguments that are not periodic: the second value minus the first.
\<close>

definition plain_difference :: "nat \<Rightarrow> real \<Rightarrow> real \<Rightarrow> real" where
  "plain_difference i d1 d2 = d2 - d1"

text \<open>
  The matrix routines on diagonal matrices, where the inverse, the Cholesky factor and
  the eigen-decomposition (eigenvalues in ascending order, as LAPACK returns them, each
  with its unit vector) are immediate. The examples call them on diagonal matrices only.
\<close>

definition diag_Invert :: "real list list \<Rightarrow> real list list" where
  "diag_Invert m = matrix_rows (length m) (\<lambda>i j. if i = j then 1 / (m ! i ! i) else 0)"

definition diag_cholesky :: "real list list \<Rightarrow> real list list" where
  "diag_cholesky m = matrix_rows (length m) (\<lambda>i j. if i = j then sqrt (m ! i ! i) else 0)"

definition diag_order :: "real list list \<Rightarrow> nat list" where
  "diag_order m = map snd (sort_key fst (map (\<lambda>i. (m ! i ! i, i)) [0..<length m]))"

definition diag_diagMat :: "real list list \<Rightarrow> real list \<times> real list list" where
  "diag_diagMat m =
     (map (\<lambda>k. m ! k ! k) (diag_order m),
      matrix_rows (length m) (\<lambda>i j. if diag_order m ! j = i then 1 else 0))"

definition plain_world :: "nat \<Rightarrow> nat \<Rightarrow> (DenseGrid, nat list) World" where
  "plain_world n P =
     \<lparr>ncv = n,
      arg_name = (\<lambda>i. if i = 0 then ''d1'' else if i = 1 then ''d2'' else ''d3''),
      arg_domain = (\<lambda>i. None),
      difference = plain_difference,
      comm_size = P,
      kBoltzmann = 1,
      timeStep = 1,
      Invert = diag_Invert,
      cholesky = diag_cholesky,
      diagMat = diag_diagMat,
      getDx = g_dx,
      getNeighbors = dg_getNeighbors,
      getPoint = dg_getPoint,
      addValueAndDerivatives = dg_addValueAndDerivatives,
      getValue = dg_getValue,
      getValueAndDerivatives = dg_getValueAndDerivatives,
      newGrid = (\<lambda>gmin gmax gbin spline sparse.
                   \<lparr>g_min = replicate (length gbin) 0, g_dx = replicate (length gbin) 1,
                    g_nbin = gbin, g_cells = []\<rparr>),
      fl = (\<lambda>x. x)\<rparr>"


subsection \<open>Runs and reference definitions\<close>

text \<open>
  The input of the manual's first example and of the scenario of the specification:
  one hill width of 0.2, height 0.3, a hill every 500 steps, everything else absent.
\<close>

definition plain_options :: Options where
  "plain_options =
     \<lparr>kw_ADAPTIVE = None, kw_SIGMA = [0.2], kw_HEIGHT = 0.3, kw_PACE = 500,
      kw_BIASFACTOR = None, kw_TEMP = None,
      kw_GRID_MIN = [], kw_GRID_MAX = [], kw_GRID_BIN = [],
      kw_GRID_SPARSE = False, kw_GRID_NOSPLINE = False,
      kw_GRID_WSTRIDE = None, kw_GRID_WFILE = None,
      kw_WALKERS_N = None, kw_WALKERS_ID = None, kw_WALKERS_RSTRIDE = None,
      kw_UPPER_INTERVAL = None, kw_LOWER_INTERVAL = None,
      kw_restart = False, kw_files = (\<lambda>i. None)\<rparr>"

text \<open>A call of \<^verbatim>\<open>update\<close> at a step and a CV point, with no hills file around.\<close>

definition step_in :: "int \<Rightarrow> real list \<Rightarrow> StepIn" where
  "step_in n cv =
     \<lparr>getStep = n, getArgument = cv, getInverseMatrix = [], wallclock = 0,
      hillsfiles = (\<lambda>i. None)\<rparr>"

text \<open>Successive calls of \<^verbatim>\<open>update\<close>; a fatal error ends the run.\<close>

fun updates :: "('g, 'c) World \<Rightarrow> 'g MetaD \<Rightarrow> StepIn list \<Rightarrow> error + 'g MetaD" where
  "updates w s [] = Inr s"
| "updates w s (inp # rest) =
     (case update w s inp of Inl e \<Rightarrow> Inl e | Inr s' \<Rightarrow> updates w s' rest)"

text \<open>
  The reference for list mode, after the words of the specification: the sum of
  \<open>evaluateGaussian\<close> over every stored hill, in order, by a single worker.
\<close>

definition sequential_bias ::
  "('g, 'c) World \<Rightarrow> 'g MetaD \<Rightarrow> real list \<Rightarrow> real list option \<Rightarrow> real \<times> real list option"
  where
  "sequential_bias w s cv der =
     fold (\<lambda>h (b, d). let (v, d') = evaluateGaussian w s cv h d in (b + v, d'))
       (hills s) (0, der)"

text \<open>
  The members right after the constructor's checks for the plain input, one CV and one
  worker; and the same with four hills stored.
\<close>

definition plain_state :: "DenseGrid MetaD" where
  "plain_state = initial_state (plain_world 1 1) plain_options none"

definition four_hills :: "DenseGrid MetaD" where
  "four_hills =
     plain_state\<lparr>hills := [Gaussian_ctor [1] [0.2] 0.3 False, Gaussian_ctor [2] [0.2] 0.3 False,
                          Gaussian_ctor [1.5] [0.2] 0.3 False, Gaussian_ctor [3] [0.2] 0.3 False]\<rparr>"

text \<open>
  A run with the interval restriction on \<open>[0.5, 2.5]\<close>, unit width and height and a hill
  at every step: in list mode with one hill stored at 2, and in grid mode on the mesh
  0, 1, 2, 3 before and after the deposition of that hill.
\<close>

definition interval_options :: Options where
  "interval_options =
     plain_options\<lparr>kw_SIGMA := [1], kw_HEIGHT := 1, kw_PACE := 1,
        kw_LOWER_INTERVAL := Some 0.5, kw_UPPER_INTERVAL := Some 2.5\<rparr>"

definition interval_grid_options :: Options where
  "interval_grid_options =
     interval_options\<lparr>kw_GRID_MIN := [''0''], kw_GRID_MAX := [''4''], kw_GRID_BIN := [4]\<rparr>"

definition il_state :: "DenseGrid MetaD" where
  "il_state = (initial_state (plain_world 1 1) interval_options none)
                \<lparr>hills := [Gaussian_ctor [2] [1] 1 False]\<rparr>"

definition ig_state :: "DenseGrid MetaD" where
  "ig_state = (initial_state (plain_world 1 1) interval_grid_options none)\<lparr>ifiles := [None]\<rparr>"

definition ig_grid :: DenseGrid where
  "ig_grid = \<lparr>g_min = [0], g_dx = [1], g_nbin = [4],
     g_cells = [([3], 0, [0]), ([2], 1, [0]), ([1], exp (- (1 / 2)), [exp (- (1 / 2))]),
                ([0], 0, [0])]\<rparr>"

definition ig_final :: "DenseGrid MetaD" where
  "ig_final = ig_state\<lparr>isFirstStep := False, BiasGrid := Some ig_grid,
              hillsOfile := [writeGaussian (plain_world 1 1)
                 (ig_state\<lparr>isFirstStep := False, BiasGrid := Some ig_grid\<rparr>) 1 0
                 (Gaussian_ctor [2] [1] 1 False)]\<rparr>"

text \<open>
  The state the constructor returns for the plain input, that state after the first call
  of \<open>update\<close>, and a well-tempered input (bias factor 2, temperature 1, a hill at every
  step) with the state its constructor returns.
\<close>

definition fresh_state :: "DenseGrid MetaD" where
  "fresh_state = plain_state\<lparr>ifiles := [None]\<rparr>"

definition stepped_state :: "DenseGrid MetaD" where
  "stepped_state = fresh_state\<lparr>isFirstStep := False\<rparr>"

definition wt_options :: Options where
  "wt_options = plain_options\<lparr>kw_PACE := 1, kw_BIASFACTOR := Some 2, kw_TEMP := Some 1\<rparr>"


text \<open>
  An adaptive input with the interval restriction (one width, as the adaptive schemes
  require), to be used with two CVs; a world whose only argument is periodic on
  \<open>[-pi, pi]\<close>; and a hills record whose CV field carries no periodicity.
\<close>

definition adaptive_interval_options :: Options where
  "adaptive_interval_options =
     plain_options\<lparr>kw_ADAPTIVE := Some ''GEOM'', kw_SIGMA := [0.05],
                    kw_LOWER_INTERVAL := Some 0, kw_UPPER_INTERVAL := Some 1\<rparr>"

definition periodic_world :: "(DenseGrid, nat list) World" where
  "periodic_world = (plain_world 1 1)\<lparr>arg_domain := (\<lambda>i. Some (''-pi'', ''pi''))\<rparr>"

definition nonperiodic_line :: HillLine where
  "nonperiodic_line =
     \<lparr>f_time = 500, f_args = [(1, None)], f_multivariate = ''false'',
      f_sigma = [(''sigma_d1'', 0.2)], f_height = 0.3, f_biasf = 1, f_clock = None\<rparr>"

text \<open>
  For the neighbourhood of a full-covariance hill: a hill at \<open>[2, 2]\<close> whose stored
  matrix (the inverse covariance, upper triangle by rows) is \<open>diag(1/4, 1)\<close>, and a grid
  of 5 by 5 points with unit spacing from the origin. The run that deposits this hill
  on this grid: two CVs, \<^verbatim>\<open>ADAPTIVE=GEOM\<close>, unit height, a hill at every step, and a
  call of \<^verbatim>\<open>update\<close> at \<open>[2, 2]\<close> for which the adaptive-width estimator returns that
  matrix.
\<close>

definition tilted_hill :: Gaussian where
  "tilted_hill = Gaussian_ctor [2, 2] [1 / 4, 0, 1] 1 True"

definition square_grid :: DenseGrid where
  "square_grid = \<lparr>g_min = [0, 0], g_dx = [1, 1], g_nbin = [5, 5], g_cells = []\<rparr>"

definition tilted_options :: Options where
  "tilted_options =
     plain_options\<lparr>kw_ADAPTIVE := Some ''GEOM'', kw_SIGMA := [0.5], kw_HEIGHT := 1, kw_PACE := 1,
        kw_GRID_MIN := [''0'', ''0''], kw_GRID_MAX := [''5'', ''5''], kw_GRID_BIN := [5, 5],
        kw_GRID_NOSPLINE := True\<rparr>"

definition tilted_state :: "DenseGrid MetaD" where
  "tilted_state = (initial_state (plain_world 2 1) tilted_options geometry)\<lparr>ifiles := [None]\<rparr>"

definition tilted_step :: StepIn where
  "tilted_step = (step_in 1 [2, 2])\<lparr>getInverseMatrix := [1 / 4, 0, 1]\<rparr>"

subsection \<open>Rounding to binary64\<close>






text \<open>
  A record of a hills file as a well-tempered run with bias factor 2 prints it for a
  hill of height 0.3 at 1; a restart of the well-tempered input from a file holding
  that record; and a run of two walkers, of which this one is walker 0, where the file
  of walker 1 exists, is empty when the action is created and holds that record at the
  first call of \<^verbatim>\<open>update\<close> (with the clock field that a run of several walkers
  prints).
\<close>

definition wt_line :: HillLine where
  "wt_line =
     \<lparr>f_time = 1, f_args = [(1, None)], f_multivariate = ''false'',
      f_sigma = [(''sigma_d1'', 0.2)], f_height = 0.6, f_biasf = 2, f_clock = None\<rparr>"


definition walker_options :: Options where
  "walker_options =
     wt_options\<lparr>kw_WALKERS_N := Some 2, kw_WALKERS_ID := Some 0, kw_WALKERS_RSTRIDE := Some 1,
        kw_files := (\<lambda>i. if i = 1 then Some [] else None)\<rparr>"

definition walker_state :: "DenseGrid MetaD" where
  "walker_state = (initial_state (plain_world 1 1) walker_options none)\<lparr>ifiles := [None, Some 0]\<rparr>"

definition walker_step :: StepIn where
  "walker_step =
     (step_in 0 [1])\<lparr>hillsfiles :=
        (\<lambda>i. if i = 1 then Some [wt_line\<lparr>f_clock := Some 0\<rparr>] else None)\<rparr>"

text \<open>
  Two states hold the same bias: the members that the evaluation of the bias and
  \<^verbatim>\<open>addGaussian\<close> read agree.
\<close>

abbreviation same_bias :: "'g MetaD \<Rightarrow> 'g MetaD \<Rightarrow> bool" where
  "same_bias s t \<equiv> grid s = grid t \<and> BiasGrid s = BiasGrid t \<and> hills s = hills t
      \<and> doInt s = doInt t \<and> lowI s = lowI t \<and> uppI s = uppI t"

section \<open>Properties\<close>

subsection \<open>Auxiliary facts\<close>

lemma unsigned_ceil_in_range:
  assumes "0 \<le> x" "x \<le> 2 ^ 32 - 1"
  shows "unsigned_ceil x = nat \<lceil>x\<rceil>"
proof -
  have "0 \<le> \<lceil>x\<rceil>" using assms(1) by simp
  moreover have "\<lceil>x\<rceil> \<le> 2 ^ 32 - 1" using assms(2) by (simp add: ceiling_le_iff)
  ultimately show ?thesis by (simp add: unsigned_ceil_def)
qed

lemma invsigma_ctor_nth:
  "i < length sg \<Longrightarrow>
   invsigma (Gaussian_ctor c sg h mv) ! i = (if \<bar>sg ! i\<bar> > 1 / 10 ^ 20 then 1 / sg ! i else sg ! i)"
  by (simp add: Gaussian_ctor_def)

lemma invsigma_bounded:
  fixes x :: real
  shows "\<bar>if \<bar>x\<bar> > 1 / 10 ^ 20 then 1 / x else x\<bar> < 10 ^ 20"
proof (cases "\<bar>x\<bar> > 1 / 10 ^ 20")
  case True
  then have "1 / \<bar>x\<bar> < 1 / (1 / 10 ^ 20)"
    by (intro divide_strict_left_mono) auto
  then show ?thesis using True by (simp add: abs_divide)
next
  case False
  then have "\<bar>x\<bar> \<le> 1 / 10 ^ 20" by simp
  also have "\<dots> < (10::real) ^ 20" by simp
  finally show ?thesis using False by simp
qed

lemma dp_diag_nth:
  "i < length cv \<Longrightarrow>
   dp_diag w cv hill ! i = difference w i (center hill ! i) (cv ! i) * invsigma hill ! i"
  by (simp add: dp_diag_def)

lemma length_dp_diag: "length (dp_diag w cv hill) = length cv"
  by (simp add: dp_diag_def)

lemma length_gauss_der: "length (gauss_der w s cv hill) = length cv"
  by (simp add: gauss_der_def Let_def)

lemma add_into_length: "length c \<le> length d \<Longrightarrow> length (add_into d c) = length d"
  by (simp add: add_into_def)

lemma add_into_nth:
  "length c = length d \<Longrightarrow> i < length d \<Longrightarrow> add_into d c ! i = d ! i + c ! i"
  by (simp add: add_into_def)

lemma flat_term:
  fixes x d e :: real
  assumes "\<bar>x\<bar> \<le> e"
  shows "(d * x)\<^sup>2 \<le> d\<^sup>2 * e\<^sup>2"
proof -
  have "\<bar>x\<bar>\<^sup>2 \<le> e\<^sup>2"
    using assms by (intro power_mono) auto
  then have "x\<^sup>2 \<le> e\<^sup>2" by simp
  then have "d\<^sup>2 * x\<^sup>2 \<le> d\<^sup>2 * e\<^sup>2"
    by (intro mult_left_mono) auto
  then show ?thesis unfolding power_mult_distrib .
qed

lemma fold_eval_Some:
  "length d = length cv \<Longrightarrow>
   fold (\<lambda>i (b, dd). let (v, d') = evaluateGaussian w s cv (f i) dd in (b + v, d')) idxs
        (b0, Some d) =
     (b0 + (\<Sum>i\<leftarrow>idxs. gauss_bias w s cv (f i)),
      Some (map (\<lambda>j. d ! j + (\<Sum>i\<leftarrow>idxs. gauss_der w s cv (f i) ! j)) [0..<length cv]))"
proof (induction idxs arbitrary: b0 d)
  case Nil
  then show ?case using map_nth [of d] by simp
next
  case (Cons a idxs)
  let ?d1 = "add_into d (gauss_der w s cv (f a))"
  have len: "length ?d1 = length cv"
    using Cons.prems by (simp add: add_into_length length_gauss_der)
  have nth: "\<And>j. j < length cv \<Longrightarrow> ?d1 ! j = d ! j + gauss_der w s cv (f a) ! j"
    using Cons.prems by (simp add: add_into_nth length_gauss_der)
  show ?case
    using Cons.IH [OF len] nth
    by (simp add: evaluateGaussian_def add.assoc)
qed

lemma fold_eval_None:
  "fold (\<lambda>i (b, dd). let (v, d') = evaluateGaussian w s cv (f i) dd in (b + v, d')) idxs
        (b0, None) =
     (b0 + (\<Sum>i\<leftarrow>idxs. gauss_bias w s cv (f i)), None)"
  by (induction idxs arbitrary: b0) (simp_all add: evaluateGaussian_def add.assoc)

lemma strided_sum_from:
  "0 < P \<Longrightarrow> sum_list (map F (strided P n i)) = sum F {k. i \<le> k \<and> k < n \<and> k mod P = i mod P}"
proof (induction P n i rule: strided.induct)
  case (1 P n i)
  show ?case
  proof (cases "i < n")
    case False
    then have "{k. i \<le> k \<and> k < n \<and> k mod P = i mod P} = {}" by auto
    then have "sum F {k. i \<le> k \<and> k < n \<and> k mod P = i mod P} = 0"
      by (simp only: sum.empty)
    moreover have "strided P n i = []" using False by (subst strided.simps) simp
    ultimately show ?thesis by simp
  next
    case True
    have split: "{k. i \<le> k \<and> k < n \<and> k mod P = i mod P}
               = insert i {k. i + P \<le> k \<and> k < n \<and> k mod P = (i + P) mod P}"
    proof (rule set_eqI, rule iffI)
      fix k assume "k \<in> {k. i \<le> k \<and> k < n \<and> k mod P = i mod P}"
      then have k: "i \<le> k" "k < n" "k mod P = i mod P" by auto
      show "k \<in> insert i {k. i + P \<le> k \<and> k < n \<and> k mod P = (i + P) mod P}"
      proof (cases "k = i")
        case True then show ?thesis by simp
      next
        case False
        with k have "i < k" by simp
        have "(k - i) mod P = 0"
          using k by (metis mod_eq_dvd_iff_nat dvd_imp_mod_0)
        then have "P dvd (k - i)" by auto
        then have "P \<le> k - i" using \<open>i < k\<close> by (auto intro: dvd_imp_le)
        then have "i + P \<le> k" using \<open>i < k\<close> by linarith
        then show ?thesis using k by simp
      qed
    next
      fix k assume "k \<in> insert i {k. i + P \<le> k \<and> k < n \<and> k mod P = (i + P) mod P}"
      then show "k \<in> {k. i \<le> k \<and> k < n \<and> k mod P = i mod P}"
        using True by auto
    qed
    have fin: "finite {k. i + P \<le> k \<and> k < n \<and> k mod P = (i + P) mod P}" by simp
    have notin: "i \<notin> {k. i + P \<le> k \<and> k < n \<and> k mod P = (i + P) mod P}"
      using "1.prems" by simp
    have "sum_list (map F (strided P n i)) = F i + sum_list (map F (strided P n (i + P)))"
      using True "1.prems" by (subst strided.simps) simp
    also have "\<dots> = F i + sum F {k. i + P \<le> k \<and> k < n \<and> k mod P = (i + P) mod P}"
      using "1.IH" True "1.prems" by simp
    also have "\<dots> = sum F {k. i \<le> k \<and> k < n \<and> k mod P = i mod P}"
      unfolding split using fin notin by simp
    finally show ?thesis .
  qed
qed

lemma strided_sum:
  assumes "0 < P" "r < P"
  shows "sum_list (map F (strided P n r)) = sum F {k \<in> {..<n}. k mod P = r}"
proof -
  have "{k. r \<le> k \<and> k < n \<and> k mod P = r mod P} = {k \<in> {..<n}. k mod P = r}"
    using assms by (auto simp: mod_less_eq_dividend intro: order_trans [OF _ mod_less_eq_dividend])
  then show ?thesis using strided_sum_from [OF assms(1), of F n r] by simp
qed

lemma comm_Sum_strided:
  assumes "0 < P"
  shows "comm_Sum P (\<lambda>r. c r + (\<Sum>i\<leftarrow>strided P n r. F i)) = comm_Sum P c + (\<Sum>i\<leftarrow>[0..<n]. F i)"
proof -
  have "(\<Sum>r<P. sum F {k \<in> {..<n}. k mod P = r}) = sum F {..<n}"
    by (rule sum.group) (use assms in auto)
  moreover have "(\<Sum>r<P. (\<Sum>i\<leftarrow>strided P n r. F i)) = (\<Sum>r<P. sum F {k \<in> {..<n}. k mod P = r})"
    by (rule sum.cong) (use assms in \<open>auto simp: strided_sum\<close>)
  ultimately show ?thesis
    by (simp add: comm_Sum_def interv_sum_list_conv_sum_set_nat sum.distrib atLeast0LessThan)
qed

lemma dp_multi_comm_size [simp]: "dp_multi (w\<lparr>comm_size := P\<rparr>) cv h = dp_multi w cv h"
  by (simp add: dp_multi_def)

lemma dp_diag_comm_size [simp]: "dp_diag (w\<lparr>comm_size := P\<rparr>) cv h = dp_diag w cv h"
  by (simp add: dp_diag_def)

lemma dp2_multi_comm_size [simp]: "dp2_multi (w\<lparr>comm_size := P\<rparr>) cv h = dp2_multi w cv h"
  by (simp add: dp2_multi_def Let_def cong: if_cong)

lemma dp2_diag_comm_size [simp]: "dp2_diag (w\<lparr>comm_size := P\<rparr>) cv h = dp2_diag w cv h"
  by (simp add: dp2_diag_def)

lemma gauss_bias_comm_size [simp]:
  "gauss_bias (w\<lparr>comm_size := P\<rparr>) s cv h = gauss_bias w s cv h"
  by (simp add: gauss_bias_def Let_def)

lemma gauss_der_comm_size [simp]:
  "gauss_der (w\<lparr>comm_size := P\<rparr>) s cv h = gauss_der w s cv h"
  by (simp add: gauss_der_def Let_def)

lemma sum_list_nth_hills: "(\<Sum>i\<leftarrow>[0..<length xs]. F (xs ! i)) = (\<Sum>h\<leftarrow>xs. F h)"
proof -
  have "map (\<lambda>i. F (xs ! i)) [0..<length xs] = map F (map ((!) xs) [0..<length xs])"
    by simp
  then show ?thesis by (simp only: map_nth)
qed

lemma sequential_bias_None:
  "sequential_bias w s cv None = ((\<Sum>h\<leftarrow>hills s. gauss_bias w s cv h), None)"
  unfolding sequential_bias_def using fold_eval_None [of w s cv "\<lambda>h. h" "hills s" 0] by simp

lemma sequential_bias_Some:
  "length d = length cv \<Longrightarrow>
   sequential_bias w s cv (Some d) =
     ((\<Sum>h\<leftarrow>hills s. gauss_bias w s cv h),
      Some (map (\<lambda>j. d ! j + (\<Sum>h\<leftarrow>hills s. gauss_der w s cv h ! j)) [0..<length cv]))"
  unfolding sequential_bias_def using fold_eval_Some [of d cv w s "\<lambda>h. h" "hills s" 0] by simp

lemma list_bias_None:
  assumes "0 < comm_size w" "\<not> grid s"
  shows "getBiasAndDerivatives w s cv None = ((\<Sum>h\<leftarrow>hills s. gauss_bias w s cv h), None)"
proof -
  have "comm_Sum (comm_size w) (\<lambda>r. fst (local_bias w s cv None r))
      = comm_Sum (comm_size w) (\<lambda>r. 0) + (\<Sum>i\<leftarrow>[0..<length (hills s)]. gauss_bias w s cv (hills s ! i))"
    unfolding local_bias_def fold_eval_None
    using comm_Sum_strided [OF assms(1), where c = "\<lambda>r. 0"] by simp
  then show ?thesis
    using assms(2) by (simp add: getBiasAndDerivatives_def sum_list_nth_hills comm_Sum_def)
qed

lemma list_bias_zeros:
  assumes "0 < comm_size w" "\<not> grid s" "length cv = ncv w"
  shows "getBiasAndDerivatives w s cv (Some (replicate (ncv w) 0)) =
           ((\<Sum>h\<leftarrow>hills s. gauss_bias w s cv h),
            Some (map (\<lambda>j. (\<Sum>h\<leftarrow>hills s. gauss_der w s cv h ! j)) [0..<ncv w]))"
proof -
  let ?z = "replicate (ncv w) (0::real)"
  let ?n = "length (hills s)"
  have len: "length ?z = length cv" using assms(3) by simp
  have loc: "\<And>r. local_bias w s cv (Some ?z) r =
      (0 + (\<Sum>i\<leftarrow>strided (comm_size w) ?n r. gauss_bias w s cv (hills s ! i)),
       Some (map (\<lambda>j. ?z ! j + (\<Sum>i\<leftarrow>strided (comm_size w) ?n r. gauss_der w s cv (hills s ! i) ! j))
              [0..<length cv]))"
    unfolding local_bias_def by (rule fold_eval_Some [OF len])
  have b: "comm_Sum (comm_size w) (\<lambda>r. fst (local_bias w s cv (Some ?z) r))
      = (\<Sum>h\<leftarrow>hills s. gauss_bias w s cv h)"
    using comm_Sum_strided [OF assms(1), where c = "\<lambda>r. 0" and n = ?n and F = "\<lambda>i. gauss_bias w s cv (hills s ! i)"]
    by (simp add: loc sum_list_nth_hills comm_Sum_def)
  have d: "comm_Sum_vec (comm_size w) (ncv w) (\<lambda>r. the (snd (local_bias w s cv (Some ?z) r)))
      = map (\<lambda>j. (\<Sum>h\<leftarrow>hills s. gauss_der w s cv h ! j)) [0..<ncv w]"
    unfolding comm_Sum_vec_def
  proof (rule map_cong [OF refl])
    fix j assume "j \<in> set [0..<ncv w]"
    then have j: "j < ncv w" by simp
    have "comm_Sum (comm_size w) (\<lambda>r. the (snd (local_bias w s cv (Some ?z) r)) ! j)
        = comm_Sum (comm_size w) (\<lambda>r. 0 + (\<Sum>i\<leftarrow>strided (comm_size w) ?n r. gauss_der w s cv (hills s ! i) ! j))"
      using j assms(3) by (simp add: loc)
    also have "\<dots> = (\<Sum>h\<leftarrow>hills s. gauss_der w s cv h ! j)"
      using comm_Sum_strided [OF assms(1), where c = "\<lambda>r. 0" and n = ?n and F = "\<lambda>i. gauss_der w s cv (hills s ! i) ! j"]
        sum_list_nth_hills [where F = "\<lambda>h. gauss_der w s cv h ! j" and xs = "hills s"]
      by (simp add: comm_Sum_def)
    finally show "comm_Sum (comm_size w) (\<lambda>r. the (snd (local_bias w s cv (Some ?z) r)) ! j)
        = (\<Sum>h\<leftarrow>hills s. gauss_der w s cv h ! j)" .
  qed
  show ?thesis using assms(2) b d by (simp add: getBiasAndDerivatives_def)
qed

subsection \<open>List mode: parallel and sequential evaluation\<close>

text \<open>
  C4. In list mode, for every query point and every number of workers \<open>P \<ge> 1\<close>, the bias
  and the gradient that \<open>getBiasAndDerivatives\<close> computes by the strided partition of the
  hills followed by the global sum equal the sequential sum of \<open>evaluateGaussian\<close> over
  every stored hill; so the result does not depend on the number of workers. The
  derivative buffer is absent (as in \<open>getHeight\<close>) or starts at zero (as in
  \<open>calculate\<close>).
\<close>

theorem parallel_eq_sequential:
  assumes "1 \<le> P" "\<not> grid s" "length cv = ncv w"
    and "der = None \<or> der = Some (replicate (ncv w) 0)"
  shows "getBiasAndDerivatives (w\<lparr>comm_size := P\<rparr>) s cv der = sequential_bias w s cv der
       \<and> getBiasAndDerivatives (w\<lparr>comm_size := P\<rparr>) s cv der
           = getBiasAndDerivatives (w\<lparr>comm_size := 1\<rparr>) s cv der"
proof -
  have *: "getBiasAndDerivatives (w\<lparr>comm_size := Q\<rparr>) s cv der = sequential_bias w s cv der"
    if "1 \<le> Q" for Q
  proof (cases der)
    case None
    then show ?thesis
      using list_bias_None [of "w\<lparr>comm_size := Q\<rparr>" s cv] that assms(2)
      by (simp add: sequential_bias_None)
  next
    case (Some d)
    with assms(4) have d: "d = replicate (ncv w) 0" by simp
    show ?thesis
      using list_bias_zeros [of "w\<lparr>comm_size := Q\<rparr>" s cv] that assms(2,3)
      by (simp add: Some d sequential_bias_Some)
  qed
  show ?thesis using * [of P] * [of 1] assms(1) by simp
qed

theorem parallel_eq_sequential_witness:
  "getBiasAndDerivatives ((plain_world 1 1)\<lparr>comm_size := 3\<rparr>) four_hills [1] (Some [0])
     = sequential_bias (plain_world 1 1) four_hills [1] (Some [0])
   \<and> getBiasAndDerivatives ((plain_world 1 1)\<lparr>comm_size := 3\<rparr>) four_hills [1] (Some [0])
     = getBiasAndDerivatives ((plain_world 1 1)\<lparr>comm_size := 1\<rparr>) four_hills [1] (Some [0])"
proof -
  have h1: "(1::nat) \<le> 3" by simp
  have h2: "\<not> grid four_hills"
    by (simp add: four_hills_def plain_state_def initial_state_def plain_options_def Let_def)
  have h3: "length [1::real] = ncv (plain_world 1 1)"
    by (simp add: plain_world_def)
  have h4: "Some [0::real] = None \<or> Some [0::real] = Some (replicate (ncv (plain_world 1 1)) 0)"
    by (simp add: plain_world_def)
  show ?thesis by (rule parallel_eq_sequential [OF h1 h2 h3 h4])
qed

lemma dp2_diag_sum:
  "dp2_diag w cv hill =
     0.5 * (\<Sum>i<length cv. (difference w i (center hill ! i) (cv ! i) * invsigma hill ! i)\<^sup>2)"
proof -
  have "sum_list (map (\<lambda>d. d * d) (dp_diag w cv hill))
      = (\<Sum>i\<leftarrow>[0..<length cv]. (difference w i (center hill ! i) (cv ! i) * invsigma hill ! i)\<^sup>2)"
    by (simp add: dp_diag_def comp_def power2_eq_square)
  then show ?thesis
    by (simp add: dp2_diag_def interv_sum_list_conv_sum_set_nat atLeast0LessThan)
qed

lemma gauss_bias_diag:
  "\<not> multivariate hill \<Longrightarrow>
   gauss_bias w s cv hill =
     (if dp2_diag w cv hill < 6.25 \<and> interval_open s cv
      then height hill * exp (- dp2_diag w cv hill) else 0)"
  by (simp add: gauss_bias_def DP2CUTOFF_def Let_def)

lemma gauss_der_diag:
  "\<not> multivariate hill \<Longrightarrow>
   gauss_der w s cv hill =
     map (\<lambda>i. - gauss_bias w s cv hill
               * (difference w i (center hill ! i) (cv ! i) * invsigma hill ! i)
               * invsigma hill ! i) [0..<length cv]"
  by (auto simp: gauss_der_def gauss_bias_def Let_def dp_diag_def map_replicate_const
      intro!: nth_equalityI)

subsection \<open>The inverse widths of a hill\<close>

text \<open>
  C10. For every constructed hill, entry \<open>i\<close> of the cached inverse widths is
  \<open>1 / sigma\<^sub>i\<close> when \<open>\<bar>sigma\<^sub>i\<bar> > 1e-20\<close> and is \<open>sigma\<^sub>i\<close> itself otherwise. So
  the reciprocal is only taken of a width above the threshold, every entry stays below
  \<open>1e20\<close> in absolute value, and on an axis with a width at or below the threshold the
  scaled displacement of the evaluation is the difference times the tiny width: its
  square is at most the squared difference times \<open>1e-40\<close> (an effectively flat factor),
  and exactly 0 for a zero width.
\<close>

theorem Gaussian_ctor_invsigma:
  "length (invsigma (Gaussian_ctor c sg h mv)) = length sg
   \<and> (\<forall>i<length sg. invsigma (Gaussian_ctor c sg h mv) ! i
          = (if \<bar>sg ! i\<bar> > 1 / 10 ^ 20 then 1 / sg ! i else sg ! i))
   \<and> (\<forall>i<length sg. \<bar>invsigma (Gaussian_ctor c sg h mv) ! i\<bar> < 10 ^ 20)
   \<and> (\<forall>i<length cv. length sg = length cv \<longrightarrow> \<bar>sg ! i\<bar> \<le> 1 / 10 ^ 20 \<longrightarrow>
         (dp_diag w cv (Gaussian_ctor c sg h mv) ! i)\<^sup>2
           \<le> (difference w i (c ! i) (cv ! i))\<^sup>2 * (1 / 10 ^ 20)\<^sup>2)
   \<and> (\<forall>i<length cv. length sg = length cv \<longrightarrow> sg ! i = 0 \<longrightarrow>
         dp_diag w cv (Gaussian_ctor c sg h mv) ! i = 0)"
proof (intro conjI allI impI)
  show "length (invsigma (Gaussian_ctor c sg h mv)) = length sg"
    by (simp add: Gaussian_ctor_def)
next
  fix i assume "i < length sg"
  then show "invsigma (Gaussian_ctor c sg h mv) ! i
          = (if \<bar>sg ! i\<bar> > 1 / 10 ^ 20 then 1 / sg ! i else sg ! i)"
    by (rule invsigma_ctor_nth)
next
  fix i assume "i < length sg"
  then show "\<bar>invsigma (Gaussian_ctor c sg h mv) ! i\<bar> < 10 ^ 20"
    using invsigma_bounded [of "sg ! i"] by (simp only: invsigma_ctor_nth)
next
  fix i assume i: "i < length cv" and len: "length sg = length cv"
    and small: "\<bar>sg ! i\<bar> \<le> 1 / 10 ^ 20"
  have "dp_diag w cv (Gaussian_ctor c sg h mv) ! i = difference w i (c ! i) (cv ! i) * sg ! i"
    using i len small by (simp add: dp_diag_nth invsigma_ctor_nth Gaussian_ctor_def)
  then show "(dp_diag w cv (Gaussian_ctor c sg h mv) ! i)\<^sup>2
           \<le> (difference w i (c ! i) (cv ! i))\<^sup>2 * (1 / 10 ^ 20)\<^sup>2"
    using flat_term [OF small] by (simp only:)
next
  fix i assume i: "i < length cv" and len: "length sg = length cv" and z: "sg ! i = 0"
  show "dp_diag w cv (Gaussian_ctor c sg h mv) ! i = 0"
    using i len z by (simp add: dp_diag_nth Gaussian_ctor_def)
qed


theorem Gaussian_ctor_invsigma_witness:
  "invsigma (Gaussian_ctor [0, 0] [1 / 5, 0] 1 False) ! 0 = 5
   \<and> invsigma (Gaussian_ctor [0, 0] [1 / 5, 0] 1 False) ! 1 = 0
   \<and> dp_diag (plain_world 2 1) [1, 1] (Gaussian_ctor [0, 0] [1 / 5, 0] 1 False) ! 1 = 0"
proof -
  note T = Gaussian_ctor_invsigma [of "[0, 0]" "[1 / 5, 0]" 1 False "[1, 1]" "plain_world 2 1"]
  have i0: "(0::nat) < length [1 / 5, 0::real]" and i1: "(1::nat) < length [1 / 5, 0::real]"
    by simp_all
  from T i0 have "invsigma (Gaussian_ctor [0, 0] [1 / 5, 0] 1 False) ! 0
      = (if \<bar>[1 / 5, 0::real] ! 0\<bar> > 1 / 10 ^ 20 then 1 / [1 / 5, 0::real] ! 0 else [1 / 5, 0] ! 0)"
    by blast
  then have a: "invsigma (Gaussian_ctor [0, 0] [1 / 5, 0] 1 False) ! 0 = 5" by simp
  from T i1 have "invsigma (Gaussian_ctor [0, 0] [1 / 5, 0] 1 False) ! 1
      = (if \<bar>[1 / 5, 0::real] ! 1\<bar> > 1 / 10 ^ 20 then 1 / [1 / 5, 0::real] ! 1 else [1 / 5, 0] ! 1)"
    by blast
  then have b: "invsigma (Gaussian_ctor [0, 0] [1 / 5, 0] 1 False) ! 1 = 0" by simp
  have j1: "(1::nat) < length [1, 1::real]" and len: "length [1 / 5, 0::real] = length [1, 1::real]"
    and z: "[1 / 5, 0::real] ! 1 = 0"
    by simp_all
  from T j1 len z
  have c: "dp_diag (plain_world 2 1) [1, 1] (Gaussian_ctor [0, 0] [1 / 5, 0] 1 False) ! 1 = 0"
    by blast
  show ?thesis using a b c by blast
qed

lemma add_into_map:
  "length c = length d \<Longrightarrow> add_into d c = map (\<lambda>i. d ! i + c ! i) [0..<length d]"
  by (rule nth_equalityI) (simp_all add: add_into_length add_into_nth)

lemma isotropic_dp2:
  assumes len: "length sg = length cv"
    and big: "\<forall>i<length cv. \<bar>sg ! i\<bar> > 1 / 10 ^ 20"
  shows "dp2_diag w cv (Gaussian_ctor c sg h False)
       = 0.5 * (\<Sum>i<length cv. (difference w i (c ! i) (cv ! i) / sg ! i)\<^sup>2)"
proof -
  have "(\<Sum>i<length cv. (difference w i (c ! i) (cv ! i)
                           * invsigma (Gaussian_ctor c sg h False) ! i)\<^sup>2)
      = (\<Sum>i<length cv. (difference w i (c ! i) (cv ! i) / sg ! i)\<^sup>2)"
    by (rule sum.cong [OF refl]) (use len big in \<open>simp add: invsigma_ctor_nth\<close>)
  then show ?thesis
    unfolding dp2_diag_sum by (simp add: Gaussian_ctor_def)
qed

lemma isotropic_bias:
  assumes "interval_open s cv"
  shows "gauss_bias w s cv (Gaussian_ctor c sg h False)
       = (if dp2_diag w cv (Gaussian_ctor c sg h False) < 6.25
          then h * exp (- dp2_diag w cv (Gaussian_ctor c sg h False)) else 0)"
  using assms by (simp add: gauss_bias_diag Gaussian_ctor_def)

lemma isotropic_der:
  assumes len: "length sg = length cv"
    and big: "\<forall>i<length cv. \<bar>sg ! i\<bar> > 1 / 10 ^ 20"
  shows "gauss_der w s cv (Gaussian_ctor c sg h False)
       = map (\<lambda>i. - gauss_bias w s cv (Gaussian_ctor c sg h False)
                     * difference w i (c ! i) (cv ! i) / (sg ! i)\<^sup>2) [0..<length cv]"
proof -
  have "\<not> multivariate (Gaussian_ctor c sg h False)" by (simp add: Gaussian_ctor_def)
  then have "gauss_der w s cv (Gaussian_ctor c sg h False)
     = map (\<lambda>i. - gauss_bias w s cv (Gaussian_ctor c sg h False)
               * (difference w i (center (Gaussian_ctor c sg h False) ! i) (cv ! i)
                  * invsigma (Gaussian_ctor c sg h False) ! i)
               * invsigma (Gaussian_ctor c sg h False) ! i) [0..<length cv]"
    by (rule gauss_der_diag)
  also have "\<dots> = map (\<lambda>i. - gauss_bias w s cv (Gaussian_ctor c sg h False)
                     * difference w i (c ! i) (cv ! i) / (sg ! i)\<^sup>2) [0..<length cv]"
  proof (rule map_cong [OF refl])
    fix i assume "i \<in> set [0..<length cv]"
    then have i: "i < length cv" by simp
    then have inv: "invsigma (Gaussian_ctor c sg h False) ! i = 1 / sg ! i"
      using len big by (simp add: invsigma_ctor_nth)
    have ce: "center (Gaussian_ctor c sg h False) = c" by (simp add: Gaussian_ctor_def)
    show "- gauss_bias w s cv (Gaussian_ctor c sg h False)
               * (difference w i (center (Gaussian_ctor c sg h False) ! i) (cv ! i)
                  * invsigma (Gaussian_ctor c sg h False) ! i)
               * invsigma (Gaussian_ctor c sg h False) ! i
        = - gauss_bias w s cv (Gaussian_ctor c sg h False)
                     * difference w i (c ! i) (cv ! i) / (sg ! i)\<^sup>2"
      unfolding inv ce by (simp add: power2_eq_square)
  qed
  finally show ?thesis .
qed

subsection \<open>The isotropic Gaussian\<close>

text \<open>
  C1 (as amended). For a query point \<open>cv\<close> and an isotropic hill all of whose widths
  exceed \<open>1e-20\<close> in absolute value, with the interval restriction off or
  \<open>cv[0]\<close> strictly inside the interval: \<open>evaluateGaussian\<close> returns
  \<open>height * exp (- d2)\<close> when \<open>d2 < 6.25\<close> and exactly 0 otherwise, where
  \<open>d2 = 0.5 * \<Sum>\<^sub>i (d\<^sub>i / sigma\<^sub>i)\<^sup>2\<close> and \<open>d\<^sub>i\<close> is the periodic difference; and
  when a derivative buffer is supplied, what is added to its entry \<open>i\<close> is
  \<open>- value * d\<^sub>i / sigma\<^sub>i\<^sup>2\<close> (the width squared, not the width). In the scenario of
  one CV, width 0.2, height 0.3 and stride 500, after the deposition at step 500 at
  centre 1.0 the bias at 1.0 is 0.3 and the bias at 1.2 is \<open>0.3 * exp (- 0.5)\<close>.
\<close>

theorem evaluateGaussian_isotropic:
  assumes len: "length sg = length cv" "length d = length cv"
    and big: "\<forall>i<length cv. \<bar>sg ! i\<bar> > 1 / 10 ^ 20"
    and io: "interval_open s cv"
  shows "(let hill = Gaussian_ctor c sg h False;
              dd = (\<lambda>i. difference w i (c ! i) (cv ! i));
              d2 = 0.5 * (\<Sum>i<length cv. (dd i / sg ! i)\<^sup>2);
              v = (if d2 < 6.25 then h * exp (- d2) else 0)
          in evaluateGaussian w s cv hill None = (v, None)
           \<and> evaluateGaussian w s cv hill (Some d)
               = (v, Some (map (\<lambda>i. d ! i + - v * dd i / (sg ! i)\<^sup>2) [0..<length cv])))
       \<and> (case MetaD_ctor (plain_world 1 1) plain_options of
            Inl e \<Rightarrow> False
          | Inr s0 \<Rightarrow>
             (case updates (plain_world 1 1) s0 [step_in 0 [1], step_in 500 [1]] of
                Inl e \<Rightarrow> False
              | Inr s2 \<Rightarrow>
                  hills s2 = [Gaussian_ctor [1] [0.2] 0.3 False]
                \<and> fst (getBiasAndDerivatives (plain_world 1 1) s2 [1] None) = 0.3
                \<and> fst (getBiasAndDerivatives (plain_world 1 1) s2 [1.2] None) = 0.3 * exp (- 0.5)))"
proof (rule conjI)
  let ?hill = "Gaussian_ctor c sg h False"
  have b: "gauss_bias w s cv ?hill
      = (if 0.5 * (\<Sum>i<length cv. (difference w i (c ! i) (cv ! i) / sg ! i)\<^sup>2) < 6.25
         then h * exp (- (0.5 * (\<Sum>i<length cv. (difference w i (c ! i) (cv ! i) / sg ! i)\<^sup>2)))
         else 0)"
    unfolding isotropic_bias [OF io] isotropic_dp2 [OF len(1) big] ..
  have g: "add_into d (gauss_der w s cv ?hill)
      = map (\<lambda>i. d ! i + - gauss_bias w s cv ?hill * difference w i (c ! i) (cv ! i) / (sg ! i)\<^sup>2)
          [0..<length cv]"
    unfolding isotropic_der [OF len(1) big]
    by (rule nth_equalityI) (use len in \<open>simp_all add: add_into_length add_into_nth\<close>)
  show "let hill = Gaussian_ctor c sg h False;
              dd = (\<lambda>i. difference w i (c ! i) (cv ! i));
              d2 = 0.5 * (\<Sum>i<length cv. (dd i / sg ! i)\<^sup>2);
              v = (if d2 < 6.25 then h * exp (- d2) else 0)
          in evaluateGaussian w s cv hill None = (v, None)
           \<and> evaluateGaussian w s cv hill (Some d)
               = (v, Some (map (\<lambda>i. d ! i + - v * dd i / (sg ! i)\<^sup>2) [0..<length cv]))"
    by (simp add: Let_def evaluateGaussian_def g b)
next
  have s0: "MetaD_ctor (plain_world 1 1) plain_options = Inr (plain_state\<lparr>ifiles := [None]\<rparr>)"
    by (simp add: MetaD_ctor_def parse_adaptive_def or_default_def plain_options_def
        config_error_def check_basic_def check_grid_def check_walkers_def check_interval_def
        plain_world_def initial_state_def plain_state_def Let_def)
  define s2 where "s2 = plain_state\<lparr>ifiles := [None], isFirstStep := False,
     hills := [Gaussian_ctor [1] [0.2] 0.3 False],
     hillsOfile := [writeGaussian (plain_world 1 1)
        (plain_state\<lparr>ifiles := [None], isFirstStep := False,
           hills := [Gaussian_ctor [1] [0.2] 0.3 False]\<rparr>) 500 0 (Gaussian_ctor [1] [0.2] 0.3 False)]\<rparr>"
  have u: "updates (plain_world 1 1) (plain_state\<lparr>ifiles := [None]\<rparr>)
             [step_in 0 [1], step_in 500 [1]] = Inr s2"
    by (simp add: s2_def update_def deposit_def dump_grid_def nowAddAHill_def step_in_def
      plain_state_def initial_state_def plain_options_def or_default_def newhill_def
      getHeight_def addGaussian_def plain_world_def signed_modulo_int_def Let_def)
  have ng: "\<not> grid s2" "hills s2 = [Gaussian_ctor [1] [0.2] 0.3 False]" "\<not> doInt s2"
    by (simp_all add: s2_def plain_state_def initial_state_def plain_options_def or_default_def Let_def)
  have P: "0 < comm_size (plain_world 1 1)" by (simp add: plain_world_def)
  have io2: "interval_open s2 cv" for cv using ng(3) by (simp add: interval_open_def)
  have v1: "gauss_bias (plain_world 1 1) s2 [1] (Gaussian_ctor [1] [0.2] 0.3 False) = 0.3"
    unfolding isotropic_bias [OF io2]
    by (simp add: dp2_diag_def dp_diag_def Gaussian_ctor_def plain_world_def plain_difference_def)
  have v2: "gauss_bias (plain_world 1 1) s2 [1.2] (Gaussian_ctor [1] [0.2] 0.3 False)
          = 0.3 * exp (- 0.5)"
    unfolding isotropic_bias [OF io2]
    by (simp add: dp2_diag_def dp_diag_def Gaussian_ctor_def plain_world_def plain_difference_def)
  have g1: "fst (getBiasAndDerivatives (plain_world 1 1) s2 [1] None) = 0.3"
    using list_bias_None [OF P ng(1), of "[1]"] v1 by (simp add: ng(2))
  have g2: "fst (getBiasAndDerivatives (plain_world 1 1) s2 [1.2] None) = 0.3 * exp (- 0.5)"
    using list_bias_None [OF P ng(1), of "[1.2]"] v2 by (simp add: ng(2))
  show "case MetaD_ctor (plain_world 1 1) plain_options of
            Inl e \<Rightarrow> False
          | Inr s0 \<Rightarrow>
             (case updates (plain_world 1 1) s0 [step_in 0 [1], step_in 500 [1]] of
                Inl e \<Rightarrow> False
              | Inr s2 \<Rightarrow>
                  hills s2 = [Gaussian_ctor [1] [0.2] 0.3 False]
                \<and> fst (getBiasAndDerivatives (plain_world 1 1) s2 [1] None) = 0.3
                \<and> fst (getBiasAndDerivatives (plain_world 1 1) s2 [1.2] None) = 0.3 * exp (- 0.5))"
    unfolding s0 sum.case u
    using ng(2) g1 g2 by simp
qed


lemma plain_state_open: "interval_open plain_state cv"
  by (simp add: interval_open_def plain_state_def initial_state_def plain_options_def
      or_default_def Let_def)

lemma example_gradient:
  "evaluateGaussian (plain_world 1 1) plain_state [2] (Gaussian_ctor [0] [2] 1 False) (Some [0])
     = (exp (- (1 / 2)), Some [- exp (- (1 / 2)) / 2])"
  by (simp add: evaluateGaussian_def gauss_bias_def gauss_der_def dp2_diag_def dp_diag_def
      Gaussian_ctor_def add_into_def plain_state_open plain_world_def plain_difference_def
      DP2CUTOFF_def Let_def)

theorem evaluateGaussian_isotropic_witness:
  "evaluateGaussian (plain_world 1 1) plain_state [2] (Gaussian_ctor [0] [2] 1 False) (Some [0])
     = (exp (- (1 / 2)), Some [- exp (- (1 / 2)) / 2])"
proof -
  have h1: "length [2::real] = length [2::real]" and h2: "length [0::real] = length [2::real]"
    by simp_all
  have h3: "\<forall>i<length [2::real]. \<bar>[2::real] ! i\<bar> > 1 / 10 ^ 20" by simp
  note T = evaluateGaussian_isotropic [OF h1 h2 h3 plain_state_open, of "[0]" 1 "plain_world 1 1",
      THEN conjunct1]
  then show ?thesis
    by (simp add: Let_def plain_world_def plain_difference_def)
qed

text \<open>
  The claim as stated gives the gradient contribution as \<open>- value * d\<^sub>i / sigma\<^sub>i\<close>.
  For the hill of height 1 and width 2 centred at 0, evaluated at 2, the code adds
  \<open>- exp (- 1/2) / 2\<close>, not \<open>- exp (- 1/2)\<close>.
\<close>

theorem evaluateGaussian_gradient_counterexample:
  "\<not> (let w = plain_world 1 1; hill = Gaussian_ctor [0] [2] 1 False;
           (v, der) = evaluateGaussian w plain_state [2] hill (Some [0])
       in the der ! 0 = - v * difference w 0 (center hill ! 0) 2 / sigma hill ! 0)"
proof -
  have ne: "exp (- (1 / 2) :: real) \<noteq> 0" by simp
  have sel: "difference (plain_world 1 1) 0 (center (Gaussian_ctor [0] [2] 1 False) ! 0) 2 = 2"
    "sigma (Gaussian_ctor [0] [2] 1 False) ! 0 = 2"
    by (simp_all add: plain_world_def plain_difference_def Gaussian_ctor_def)
  show ?thesis
    unfolding Let_def example_gradient prod.case sel using ne by simp
qed

lemma sqrt_cutoff_bounds: "3 < sqrt (2 * DP2CUTOFF)" "sqrt (2 * DP2CUTOFF) < 4"
proof -
  have "sqrt 9 < sqrt (2 * DP2CUTOFF)" unfolding DP2CUTOFF_def by (subst real_sqrt_less_iff) simp
  moreover have "sqrt (9::real) = 3" using real_sqrt_abs [of 3] by simp
  ultimately show "3 < sqrt (2 * DP2CUTOFF)" by simp
  have "sqrt (2 * DP2CUTOFF) < sqrt 16" unfolding DP2CUTOFF_def by (subst real_sqrt_less_iff) simp
  moreover have "sqrt (16::real) = 4" using real_sqrt_abs [of 4] by simp
  ultimately show "sqrt (2 * DP2CUTOFF) < 4" by simp
qed

lemma ceiling_sqrt_cutoff: "\<lceil>sqrt (2 * DP2CUTOFF)\<rceil> = 4"
  using sqrt_cutoff_bounds by (simp add: ceiling_unique)

lemma ctor_ig:
  "MetaD_ctor (plain_world 1 1) interval_grid_options = Inr ig_state"
  by (simp add: MetaD_ctor_def parse_adaptive_def or_default_def plain_options_def
        config_error_def check_basic_def check_grid_def check_walkers_def check_interval_def
        plain_world_def initial_state_def interval_grid_options_def interval_options_def Let_def ig_state_def)

lemma ig_fields:
  "grid ig_state" "doInt ig_state" "lowI ig_state = 0.5" "uppI ig_state = 2.5"
  "BiasGrid ig_state = Some \<lparr>g_min = [0], g_dx = [1], g_nbin = [4], g_cells = []\<rparr>"
  "\<not> welltemp ig_state" "height0 ig_state = 1" "sigma0 ig_state = [1]" "stride ig_state = 1"
  "adaptive ig_state = none" "isFirstStep ig_state" "wgridstride ig_state = 0" "mw_n ig_state = 1"
  "hillsOfile ig_state = []"
  by (simp_all add: ig_state_def initial_state_def interval_grid_options_def interval_options_def plain_options_def
      or_default_def plain_world_def Let_def)

lemma ig_support:
  "getGaussianSupport (plain_world 1 1) \<lparr>g_min = [0], g_dx = [1], g_nbin = [4], g_cells = []\<rparr>
     (Gaussian_ctor [2] [1] 1 False) = [4]"
  by (simp add: getGaussianSupport_def unsigned_ceil_def Gaussian_ctor_def plain_world_def
      ceiling_sqrt_cutoff)

lemma ig_neighbors:
  "dg_getNeighbors \<lparr>g_min = [0], g_dx = [1], g_nbin = [4], g_cells = []\<rparr> [2] [4]
     = [[0], [1], [2], [3]]"
  by (simp add: dg_getNeighbors_def dg_index_def Let_def upt_conv_Cons)

lemma ig_eval:
  "evaluateGaussian (plain_world 1 1) (ig_state\<lparr>isFirstStep := False\<rparr>) [0]
     (Gaussian_ctor [2] [1] 1 False) (Some [0]) = (0, Some [0])"
  "evaluateGaussian (plain_world 1 1) (ig_state\<lparr>isFirstStep := False\<rparr>) [1]
     (Gaussian_ctor [2] [1] 1 False) (Some [0]) = (exp (- (1 / 2)), Some [exp (- (1 / 2))])"
  "evaluateGaussian (plain_world 1 1) (ig_state\<lparr>isFirstStep := False\<rparr>) [2]
     (Gaussian_ctor [2] [1] 1 False) (Some [0]) = (1, Some [0])"
  "evaluateGaussian (plain_world 1 1) (ig_state\<lparr>isFirstStep := False\<rparr>) [3]
     (Gaussian_ctor [2] [1] 1 False) (Some [0]) = (0, Some [0])"
  by (simp_all add: evaluateGaussian_def gauss_bias_def gauss_der_def dp2_diag_def dp_diag_def
      Gaussian_ctor_def add_into_def interval_open_def ig_fields plain_world_def
      plain_difference_def DP2CUTOFF_def Let_def)

lemma ig_add:
  "addGaussian (plain_world 1 1) (ig_state\<lparr>isFirstStep := False\<rparr>) (Gaussian_ctor [2] [1] 1 False)
     = ig_state\<lparr>isFirstStep := False, BiasGrid := Some ig_grid\<rparr>"
proof -
  define w where "w = plain_world 1 1"
  define hill where "hill = Gaussian_ctor [2] [1] 1 False"
  define s1 where "s1 = ig_state\<lparr>isFirstStep := False\<rparr>"
  have sel: "getNeighbors w = dg_getNeighbors" "getPoint w = dg_getPoint"
    "addValueAndDerivatives w = dg_addValueAndDerivatives"
    "comm_size w = 1" "ncv w = 1"
    by (simp_all add: w_def plain_world_def)
  have c: "center hill = [2]" by (simp add: hill_def Gaussian_ctor_def)
  have s1f: "grid s1" "BiasGrid s1 = Some \<lparr>g_min = [0], g_dx = [1], g_nbin = [4], g_cells = []\<rparr>"
    by (simp_all add: s1_def ig_fields)
  have sup: "getGaussianSupport w \<lparr>g_min = [0], g_dx = [1], g_nbin = [4], g_cells = []\<rparr> hill = [4]"
    unfolding w_def hill_def by (rule ig_support)
  have ev: "evaluateGaussian w s1 [0] hill (Some [0]) = (0, Some [0])"
    "evaluateGaussian w s1 [1] hill (Some [0]) = (exp (- (1 / 2)), Some [exp (- (1 / 2))])"
    "evaluateGaussian w s1 [2] hill (Some [0]) = (1, Some [0])"
    "evaluateGaussian w s1 [3] hill (Some [0]) = (0, Some [0])"
    unfolding w_def hill_def s1_def by (rule ig_eval)+
  have p: "dg_getPoint \<lparr>g_min = [0], g_dx = [1], g_nbin = [4], g_cells = cs\<rparr> [k] = [real k]" for cs k
    by (simp add: dg_getPoint_def)
  have "addGaussian w s1 hill = s1\<lparr>BiasGrid := Some ig_grid\<rparr>"
    unfolding addGaussian_def
    by (simp add: s1f sel c sup ig_neighbors p ev ig_grid_def
        dg_addValueAndDerivatives_def dg_cell_def Let_def)
  then show ?thesis by (simp add: w_def hill_def s1_def)
qed

lemma step_in_sel:
  "getStep (step_in n cv) = n" "getArgument (step_in n cv) = cv"
  "getInverseMatrix (step_in n cv) = []" "wallclock (step_in n cv) = 0"
  "hillsfiles (step_in n cv) i = None"
  by (simp_all add: step_in_def)

lemma ig_run:
  "updates (plain_world 1 1) ig_state [step_in 0 [2], step_in 1 [2]]
     = Inr (ig_state\<lparr>isFirstStep := False, BiasGrid := Some ig_grid,
              hillsOfile := [writeGaussian (plain_world 1 1)
                 (ig_state\<lparr>isFirstStep := False, BiasGrid := Some ig_grid\<rparr>) 1 0
                 (Gaussian_ctor [2] [1] 1 False)]\<rparr>)"
proof -
  define w where "w = plain_world 1 1"
  have u1: "update w ig_state (step_in 0 [2]) = Inr (ig_state\<lparr>isFirstStep := False\<rparr>)"
    by (simp add: update_def deposit_def dump_grid_def nowAddAHill_def step_in_sel ig_fields)
  have nh: "newhill w (ig_state\<lparr>isFirstStep := False\<rparr>) (step_in 1 [2])
          = Gaussian_ctor [2] [1] 1 False"
    by (simp add: newhill_def getHeight_def ig_fields step_in_sel)
  have ad: "addGaussian w (ig_state\<lparr>isFirstStep := False\<rparr>) (Gaussian_ctor [2] [1] 1 False)
     = ig_state\<lparr>isFirstStep := False, BiasGrid := Some ig_grid\<rparr>"
    unfolding w_def by (rule ig_add)
  have u2: "update w (ig_state\<lparr>isFirstStep := False\<rparr>) (step_in 1 [2])
     = Inr (ig_state\<lparr>isFirstStep := False, BiasGrid := Some ig_grid,
              hillsOfile := [writeGaussian w
                 (ig_state\<lparr>isFirstStep := False, BiasGrid := Some ig_grid\<rparr>) 1 0
                 (Gaussian_ctor [2] [1] 1 False)]\<rparr>)"
    unfolding update_def deposit_def
    by (simp add: nh ad Let_def dump_grid_def nowAddAHill_def ig_fields signed_modulo_int_def
        step_in_sel)
  show ?thesis
    unfolding w_def [symmetric] by (simp add: u1 u2)
qed

lemma outside_closed:
  "doInt s \<Longrightarrow> cv ! 0 < lowI s \<or> uppI s < cv ! 0 \<Longrightarrow> \<not> interval_open s cv"
  by (auto simp: interval_open_def)

lemma gauss_bias_closed: "\<not> interval_open s cv \<Longrightarrow> gauss_bias w s cv h = 0"
  by (simp add: gauss_bias_def Let_def)

lemma gauss_der_closed:
  "\<not> interval_open s cv \<Longrightarrow> gauss_der w s cv h = replicate (length cv) 0"
  by (simp add: gauss_der_def Let_def)

lemma sum_list_all_zero: "(\<And>x. f x = (0::real)) \<Longrightarrow> sum_list (map f xs) = 0"
  by (induction xs) simp_all

lemma list_closed:
  assumes "\<not> interval_open s cv" "\<not> grid s" "length cv = ncv w" "1 \<le> comm_size w"
  shows "getBiasAndDerivatives w s cv None = (0, None)"
    and "getBiasAndDerivatives w s cv (Some (replicate (ncv w) 0)) = (0, Some (replicate (ncv w) 0))"
proof -
  have P: "0 < comm_size w" using assms(4) by simp
  show "getBiasAndDerivatives w s cv None = (0, None)"
    unfolding list_bias_None [OF P assms(2)]
    by (simp add: sum_list_all_zero gauss_bias_closed [OF assms(1)])
  have "map (\<lambda>j. \<Sum>h\<leftarrow>hills s. gauss_der w s cv h ! j) [0..<ncv w] = replicate (ncv w) 0"
    by (rule nth_equalityI)
       (simp_all add: gauss_der_closed [OF assms(1)] assms(3) sum_list_all_zero)
  then show "getBiasAndDerivatives w s cv (Some (replicate (ncv w) 0))
           = (0, Some (replicate (ncv w) 0))"
    unfolding list_bias_zeros [OF P assms(2,3)]
    by (simp add: sum_list_all_zero gauss_bias_closed [OF assms(1)])
qed

lemma neg_zeros: "map (\<lambda>i. - (replicate n (0::real) ! i)) [0..<n] = replicate n 0"
  by (rule nth_equalityI) simp_all

subsection \<open>The interval restriction\<close>

text \<open>
  C5 (as amended). With the interval restriction active and the first CV outside
  \<open>[lowI, uppI]\<close>: in list mode the bias returned by \<open>getBiasAndDerivatives\<close> is zero
  and nothing is added to the derivatives, so \<open>calculate\<close> yields zero bias and zero
  forces; in grid mode the derivatives of the grid are not copied, so the forces of
  \<open>calculate\<close> are zero, while the bias returned is whatever the grid returns at the
  point.
\<close>

theorem interval_restriction:
  assumes "doInt s" and "cv ! 0 < lowI s \<or> uppI s < cv ! 0"
    and "length cv = ncv w" and "1 \<le> comm_size w"
  shows "(\<not> grid s \<longrightarrow>
            getBiasAndDerivatives w s cv None = (0, None)
          \<and> getBiasAndDerivatives w s cv (Some (replicate (ncv w) 0))
                = (0, Some (replicate (ncv w) 0))
          \<and> calculate w s cv = (0, replicate (ncv w) 0))
       \<and> (grid s \<longrightarrow>
            getBiasAndDerivatives w s cv (Some d)
                = (fst (getValueAndDerivatives w (the (BiasGrid s)) cv), Some d)
          \<and> calculate w s cv
                = (fst (getValueAndDerivatives w (the (BiasGrid s)) cv), replicate (ncv w) 0))"
proof (intro conjI impI)
  have closed: "\<not> interval_open s cv" using assms(1,2) by (rule outside_closed)
  {
    assume ng: "\<not> grid s"
    show "getBiasAndDerivatives w s cv None = (0, None)"
      by (rule list_closed(1) [OF closed ng assms(3,4)])
    show z: "getBiasAndDerivatives w s cv (Some (replicate (ncv w) 0))
                = (0, Some (replicate (ncv w) 0))"
      by (rule list_closed(2) [OF closed ng assms(3,4)])
    show "calculate w s cv = (0, replicate (ncv w) 0)"
      unfolding calculate_def z by (simp add: neg_zeros)
  }
  {
    assume g: "grid s"
    show gd: "getBiasAndDerivatives w s cv (Some d)
                = (fst (getValueAndDerivatives w (the (BiasGrid s)) cv), Some d)" for d
      using g closed by (simp add: getBiasAndDerivatives_def split: prod.splits)
    show "calculate w s cv
                = (fst (getValueAndDerivatives w (the (BiasGrid s)) cv), replicate (ncv w) 0)"
      unfolding calculate_def gd by (simp add: neg_zeros)
  }
qed

lemma il_fields:
  "\<not> grid il_state" "doInt il_state" "lowI il_state = 0.5" "uppI il_state = 2.5"
  by (simp_all add: il_state_def initial_state_def interval_options_def plain_options_def
      or_default_def Let_def)

lemma ig_final_fields:
  "grid ig_final" "doInt ig_final" "lowI ig_final = 0.5" "uppI ig_final = 2.5"
  "BiasGrid ig_final = Some ig_grid"
  by (simp_all add: ig_final_def ig_fields)

lemma ig_lookup: "getValueAndDerivatives (plain_world 1 1) ig_grid [2.7] = (1, [0])"
  by (simp add: plain_world_def dg_getValueAndDerivatives_def dg_cell_def dg_index_def ig_grid_def)

theorem interval_restriction_witness:
  "calculate (plain_world 1 1) il_state [2.7] = (0, replicate (ncv (plain_world 1 1)) 0)
   \<and> calculate (plain_world 1 1) ig_final [2.7]
       = (fst (getValueAndDerivatives (plain_world 1 1) (the (BiasGrid ig_final)) [2.7]),
          replicate (ncv (plain_world 1 1)) 0)"
proof -
  have len: "length [2.7::real] = ncv (plain_world 1 1)" and P: "1 \<le> comm_size (plain_world 1 1)"
    by (simp_all add: plain_world_def)
  have o1: "[2.7::real] ! 0 < lowI il_state \<or> uppI il_state < [2.7::real] ! 0"
    by (simp add: il_fields)
  have o2: "[2.7::real] ! 0 < lowI ig_final \<or> uppI ig_final < [2.7::real] ! 0"
    by (simp add: ig_final_fields)
  from interval_restriction [OF il_fields(2) o1 len P] il_fields(1)
  have a: "calculate (plain_world 1 1) il_state [2.7] = (0, replicate (ncv (plain_world 1 1)) 0)"
    by blast
  from interval_restriction [OF ig_final_fields(2) o2 len P] ig_final_fields(1)
  have b: "calculate (plain_world 1 1) ig_final [2.7]
       = (fst (getValueAndDerivatives (plain_world 1 1) (the (BiasGrid ig_final)) [2.7]),
          replicate (ncv (plain_world 1 1)) 0)"
    by blast
  show ?thesis using a b by (rule conjI)
qed

text \<open>
  The claim as stated also makes the bias zero in grid mode. On the mesh 0, 1, 2, 3 with
  the interval \<open>[0.5, 2.5]\<close> and a hill of unit height deposited at 2, the query point
  2.7 lies outside the interval and in the cell of the grid point 2, and the bias
  returned is 1.
\<close>

theorem interval_grid_counterexample:
  "case MetaD_ctor (plain_world 1 1) interval_grid_options of
     Inl e \<Rightarrow> False
   | Inr s0 \<Rightarrow>
      (case updates (plain_world 1 1) s0 [step_in 0 [2], step_in 1 [2]] of
         Inl e \<Rightarrow> False
       | Inr s2 \<Rightarrow>
           grid s2 \<and> doInt s2 \<and> uppI s2 < [2.7] ! 0
         \<and> getBiasAndDerivatives (plain_world 1 1) s2 [2.7] (Some [0]) = (1, Some [0])
         \<and> fst (calculate (plain_world 1 1) s2 [2.7]) \<noteq> 0)"
proof -
  have run: "updates (plain_world 1 1) ig_state [step_in 0 [2], step_in 1 [2]] = Inr ig_final"
    unfolding ig_final_def by (rule ig_run)
  have closed: "\<not> interval_open ig_final [2.7]"
    by (simp add: interval_open_def ig_final_fields)
  have g: "getBiasAndDerivatives (plain_world 1 1) ig_final [2.7] (Some [0]) = (1, Some [0])"
    using ig_lookup by (simp add: getBiasAndDerivatives_def ig_final_fields closed)
  have n1: "ncv (plain_world 1 1) = 1" by (simp add: plain_world_def)
  have c: "fst (calculate (plain_world 1 1) ig_final [2.7]) \<noteq> 0"
    unfolding calculate_def n1 using g by simp
  show ?thesis
    unfolding ctor_ig sum.case run
    using g c by (simp add: ig_final_fields)
qed

subsection \<open>What update and the constructor leave unchanged\<close>

lemma addGaussian_frame:
  "isFirstStep (addGaussian w s h) = isFirstStep s"
  "hillsOfile (addGaussian w s h) = hillsOfile s"
  "stride (addGaussian w s h) = stride s"
  "welltemp (addGaussian w s h) = welltemp s"
  "biasf (addGaussian w s h) = biasf s"
  "grid (addGaussian w s h) = grid s"
  "mw_id (addGaussian w s h) = mw_id s"
  "mw_n (addGaussian w s h) = mw_n s"
  "mw_rstride (addGaussian w s h) = mw_rstride s"
  "wgridstride (addGaussian w s h) = wgridstride s"
  "ifiles (addGaussian w s h) = ifiles s"
  by (simp_all add: addGaussian_def Let_def)

lemma addGaussian_list: "\<not> grid s \<Longrightarrow> addGaussian w s h = s\<lparr>hills := hills s @ [h]\<rparr>"
  by (simp add: addGaussian_def)

lemma read_height_addGaussian: "read_height w' (addGaussian w s h) = read_height w' s"
  by (rule ext) (simp add: read_height_def addGaussian_frame)

lemma readGaussians_loop_frame:
  "readGaussians_loop w s c sg ls = Inr s' \<Longrightarrow>
     isFirstStep s' = isFirstStep s \<and> hillsOfile s' = hillsOfile s \<and> stride s' = stride s
   \<and> welltemp s' = welltemp s \<and> biasf s' = biasf s \<and> grid s' = grid s
   \<and> mw_id s' = mw_id s \<and> mw_n s' = mw_n s \<and> mw_rstride s' = mw_rstride s
   \<and> wgridstride s' = wgridstride s \<and> ifiles s' = ifiles s"
proof (induction ls arbitrary: s c sg)
  case Nil
  then show ?case by simp
next
  case (Cons l ls)
  then show ?case
    by (auto simp: addGaussian_frame split: sum.splits prod.splits dest!: Cons.IH)
qed

lemma readGaussians_frame:
  "readGaussians w s ls = Inr s' \<Longrightarrow>
     isFirstStep s' = isFirstStep s \<and> hillsOfile s' = hillsOfile s \<and> stride s' = stride s
   \<and> welltemp s' = welltemp s \<and> biasf s' = biasf s \<and> grid s' = grid s
   \<and> mw_id s' = mw_id s \<and> mw_n s' = mw_n s \<and> mw_rstride s' = mw_rstride s
   \<and> wgridstride s' = wgridstride s \<and> ifiles s' = ifiles s"
  unfolding readGaussians_def by (rule readGaussians_loop_frame)

lemma read_walkers_frame:
  "read_walkers w inp is s = Inr s' \<Longrightarrow>
     isFirstStep s' = isFirstStep s \<and> hillsOfile s' = hillsOfile s \<and> stride s' = stride s
   \<and> welltemp s' = welltemp s \<and> biasf s' = biasf s \<and> grid s' = grid s"
proof (induction "is" arbitrary: s)
  case Nil
  then show ?case by simp
next
  case (Cons i "is")
  show ?case
  proof (cases "int i = mw_id s")
    case True
    with Cons show ?thesis by simp
  next
    case False
    show ?thesis
    proof (cases "ifiles s ! i")
      case None
      with False Cons.prems Cons.IH [of "s\<lparr>ifiles := (ifiles s)[i := Some 0]\<rparr>"] Cons.IH [of s]
      show ?thesis by (simp split: if_splits)
    next
      case (Some k)
      with False Cons.prems obtain s1 where
        r: "readGaussians w s (drop k (case hillsfiles inp i of None \<Rightarrow> [] | Some ls \<Rightarrow> ls)) = Inr s1"
        and rest: "read_walkers w inp is
           (s1\<lparr>ifiles := (ifiles s1)[i := Some (max k (length (case hillsfiles inp i of None \<Rightarrow> [] | Some ls \<Rightarrow> ls)))]\<rparr>) = Inr s'"
        by (auto simp: Let_def split: sum.splits)
      from readGaussians_frame [OF r] Cons.IH [OF rest] show ?thesis by simp
    qed
  qed
qed

lemma open_files_frame:
  "open_files w opts is s = Inr s' \<Longrightarrow>
     isFirstStep s' = isFirstStep s \<and> hillsOfile s' = hillsOfile s \<and> stride s' = stride s
   \<and> welltemp s' = welltemp s \<and> biasf s' = biasf s \<and> grid s' = grid s"
proof (induction "is" arbitrary: s)
  case Nil
  then show ?case by simp
next
  case (Cons i "is")
  show ?case
  proof (cases "kw_files opts i")
    case None
    with Cons.prems Cons.IH [of "s\<lparr>ifiles := ifiles s @ [None]\<rparr>"] show ?thesis by simp
  next
    case (Some ls)
    show ?thesis
    proof (cases "kw_restart opts")
      case True
      with Some Cons.prems obtain s1 where
        r: "readGaussians w s ls = Inr s1"
        and rest: "open_files w opts is
            (s1\<lparr>ifiles := ifiles s1 @ [if int i = mw_id s1 then None else Some (length ls)]\<rparr>) = Inr s'"
        by (auto split: sum.splits cong: if_cong)
      from readGaussians_frame [OF r] Cons.IH [OF rest] show ?thesis by simp
    next
      case False
      with Some Cons.prems Cons.IH [of "s\<lparr>ifiles := ifiles s @ [if int i = mw_id s then None else Some 0]\<rparr>"]
      show ?thesis by (simp cong: if_cong)
    qed
  qed
qed

lemma ctor_fields:
  assumes "MetaD_ctor w opts = Inr s"
  shows "isFirstStep s" "hillsOfile s = []" "0 < stride s" "welltemp s \<longleftrightarrow> 1 < biasf s"
    "1 \<le> biasf s"
proof -
  from assms obtain ad where ad: "parse_adaptive opts = Inr ad"
    and ce: "config_error w opts ad = None"
    and op: "open_files w opts [0..<nat (mw_n (initial_state w opts ad))] (initial_state w opts ad) = Inr s"
    by (auto simp: MetaD_ctor_def Let_def split: sum.splits option.splits)
  from ce have cb: "check_basic w opts ad = None"
    by (simp add: config_error_def split: option.splits)
  have i: "isFirstStep (initial_state w opts ad)" "hillsOfile (initial_state w opts ad) = []"
    "stride (initial_state w opts ad) = kw_PACE opts"
    "welltemp (initial_state w opts ad) \<longleftrightarrow> 1 < biasf (initial_state w opts ad)"
    "biasf (initial_state w opts ad) = or_default (kw_BIASFACTOR opts) 1"
    by (simp_all add: initial_state_def Let_def)
  from cb have "0 < kw_PACE opts" "1 \<le> or_default (kw_BIASFACTOR opts) 1"
    by (simp_all add: check_basic_def split: if_splits)
  with open_files_frame [OF op] i
  show "isFirstStep s" "hillsOfile s = []" "0 < stride s" "welltemp s \<longleftrightarrow> 1 < biasf s"
    "1 \<le> biasf s"
    by simp_all
qed

lemma smod_zero_iff:
  fixes a b :: int
  assumes "0 < b"
  shows "a smod b = 0 \<longleftrightarrow> b dvd a"
proof -
  have "a smod b = 0 \<longleftrightarrow> \<bar>a\<bar> mod b = 0"
    using assms by (auto simp: signed_modulo_int_def sgn_if)
  also have "\<dots> \<longleftrightarrow> b dvd \<bar>a\<bar>" by (simp add: dvd_eq_mod_eq_0)
  also have "\<dots> \<longleftrightarrow> b dvd a" by simp
  finally show ?thesis .
qed

lemma deposit_fields:
  "\<not> isFirstStep (deposit w s inp)"
  "stride (deposit w s inp) = stride s"
  "welltemp (deposit w s inp) = welltemp s"
  "biasf (deposit w s inp) = biasf s"
  "grid (deposit w s inp) = grid s"
  "mw_n (deposit w s inp) = mw_n s"
  "wgridstride (deposit w s inp) = wgridstride s"
  "hillsOfile (deposit w s inp) =
     (if nowAddAHill s inp
      then hillsOfile s @ [writeGaussian w (addGaussian w s (newhill w s inp)) (getStep inp)
                             (wallclock inp) (newhill w s inp)]
      else hillsOfile s)"
  by (simp_all add: deposit_def Let_def addGaussian_frame nowAddAHill_def)

lemma deposit_hills:
  "\<not> grid s \<Longrightarrow>
   hills (deposit w s inp) = (if nowAddAHill s inp then hills s @ [newhill w s inp] else hills s)"
  by (simp add: deposit_def Let_def addGaussian_list)

lemma dump_grid_frame:
  "dump_grid s inp = Inr s' \<Longrightarrow>
     isFirstStep s' = isFirstStep s \<and> hillsOfile s' = hillsOfile s \<and> stride s' = stride s
   \<and> welltemp s' = welltemp s \<and> biasf s' = biasf s \<and> grid s' = grid s
   \<and> mw_n s' = mw_n s \<and> hills s' = hills s \<and> BiasGrid s' = BiasGrid s"
  by (auto simp: dump_grid_def split: if_splits option.splits)

lemma update_frame:
  assumes "update w s inp = Inr s'"
  shows "\<not> isFirstStep s'" "stride s' = stride s" "welltemp s' = welltemp s" "biasf s' = biasf s"
    "grid s' = grid s" "hillsOfile s' = hillsOfile (deposit w s inp)"
    and "mw_n s \<le> 1 \<Longrightarrow> hills s' = hills (deposit w s inp)"
    and "mw_n s \<le> 1 \<Longrightarrow> BiasGrid s' = BiasGrid (deposit w s inp)"
proof -
  from assms obtain s1 where d: "dump_grid (deposit w s inp) inp = Inr s1"
    and r: "(if mw_n s1 > 1 then
             (if mw_rstride s1 = 0 then Inl (Crash ''remainder by zero'')
              else if getStep inp smod mw_rstride s1 = 0
              then read_walkers w inp [0..<nat (mw_n s1)] s1
              else Inr s1)
           else Inr s1) = Inr s'"
    by (auto simp: update_def split: sum.splits)
  note f1 = dump_grid_frame [OF d]
  have f2: "isFirstStep s' = isFirstStep s1 \<and> hillsOfile s' = hillsOfile s1 \<and> stride s' = stride s1
   \<and> welltemp s' = welltemp s1 \<and> biasf s' = biasf s1 \<and> grid s' = grid s1"
    using r by (auto split: if_splits dest: read_walkers_frame)
  show "\<not> isFirstStep s'" "stride s' = stride s" "welltemp s' = welltemp s" "biasf s' = biasf s"
    "grid s' = grid s" "hillsOfile s' = hillsOfile (deposit w s inp)"
    using f1 f2 by (simp_all add: deposit_fields)
  show "hills s' = hills (deposit w s inp)" if "mw_n s \<le> 1"
    using that r f1 by (simp add: deposit_fields)
  show "BiasGrid s' = BiasGrid (deposit w s inp)" if "mw_n s \<le> 1"
    using that r f1 by (simp add: deposit_fields)
qed

subsection \<open>The plain run\<close>

lemma ctor_plain: "MetaD_ctor (plain_world 1 1) plain_options = Inr fresh_state"
  by (simp add: MetaD_ctor_def parse_adaptive_def or_default_def plain_options_def
        config_error_def check_basic_def check_grid_def check_walkers_def check_interval_def
        plain_world_def initial_state_def plain_state_def fresh_state_def Let_def)

lemma fresh_fields:
  "isFirstStep fresh_state" "\<not> grid fresh_state" "mw_n fresh_state = 1"
  "wgridstride fresh_state = 0" "stride fresh_state = 500" "hills fresh_state = []"
  "hillsOfile fresh_state = []" "\<not> welltemp fresh_state" "height0 fresh_state = 0.3"
  "sigma0 fresh_state = [0.2]" "adaptive fresh_state = none"
  by (simp_all add: fresh_state_def plain_state_def initial_state_def plain_options_def
      or_default_def Let_def)

lemma update_fresh:
  "update (plain_world 1 1) fresh_state (step_in 0 [1]) = Inr stepped_state"
  by (simp add: update_def deposit_def dump_grid_def nowAddAHill_def fresh_fields
      stepped_state_def)

lemma update_stepped:
  "\<exists>s2. update (plain_world 1 1) stepped_state (step_in 500 [1]) = Inr s2
       \<and> hills s2 = [Gaussian_ctor [1] [0.2] 0.3 False]"
  by (simp add: update_def deposit_def dump_grid_def nowAddAHill_def fresh_fields
      stepped_state_def step_in_sel newhill_def getHeight_def addGaussian_def
      signed_modulo_int_def Let_def)

subsection \<open>The well-tempered height\<close>















subsection \<open>Heights in the hills file\<close>




















lemma scan_wt_line:
  "scanOneHill (plain_world 1 1) wt_line [0] [0] = Inr ([1], [0.2], 0.6, False)"
  "scanOneHill (plain_world 1 1) (wt_line\<lparr>f_clock := Some 0\<rparr>) [0] [0] = Inr ([1], [0.2], 0.6, False)"
  by (simp_all add: wt_line_def scanOneHill_def plain_world_def
      periodicity_error_def missing_field_def sigma_field_def sigma_name_def Let_def)



lemma ctor_walker: "MetaD_ctor (plain_world 1 1) walker_options = Inr walker_state"
proof -
  define w where "w = plain_world 1 1"
  define s where "s = initial_state w walker_options none"
  have sf: "mw_n s = 2" "mw_id s = 0" "ifiles s = []"
    by (simp_all add: s_def initial_state_def walker_options_def wt_options_def plain_options_def
        or_default_def Let_def)
  have o: "\<not> kw_restart walker_options" "kw_files walker_options 0 = None"
    "kw_files walker_options (Suc 0) = Some []"
    by (simp_all add: walker_options_def wt_options_def plain_options_def)
  have ce: "parse_adaptive walker_options = Inr none" "config_error w walker_options none = None"
    by (simp_all add: parse_adaptive_def config_error_def check_basic_def check_grid_def
        check_walkers_def check_interval_def walker_options_def wt_options_def plain_options_def
        or_default_def w_def plain_world_def Let_def)
  have "MetaD_ctor w walker_options = Inr (s\<lparr>ifiles := [None, Some 0]\<rparr>)"
    unfolding MetaD_ctor_def
    by (simp add: ce s_def [symmetric] sf o Let_def upt_conv_Cons)
  then show ?thesis
    unfolding w_def s_def walker_state_def by simp
qed

lemma walker_fields:
  "isFirstStep walker_state" "\<not> grid walker_state" "mw_n walker_state = 2"
  "mw_id walker_state = 0" "mw_rstride walker_state = 1"
  "wgridstride walker_state = 0" "stride walker_state = 1" "hills walker_state = []"
  "hillsOfile walker_state = []" "welltemp walker_state" "biasf walker_state = 2"
  "ifiles walker_state = [None, Some 0]" "BiasGrid walker_state = None"
  by (simp_all add: walker_state_def initial_state_def plain_options_def wt_options_def
      walker_options_def or_default_def Let_def)

lemma walker_dump:
  "dump_grid (deposit (plain_world 1 1) walker_state walker_step) walker_step
     = Inr (walker_state\<lparr>isFirstStep := False\<rparr>)"
  by (simp add: deposit_def dump_grid_def nowAddAHill_def walker_fields)

lemma walker_read:
  "readGaussians (plain_world 1 1) (walker_state\<lparr>isFirstStep := False\<rparr>)
       [wt_line\<lparr>f_clock := Some 0\<rparr>]
     = Inr (walker_state\<lparr>isFirstStep := False, hills := [Gaussian_ctor [1] [0.2] 0.3 False]\<rparr>)"
proof -
  define w where "w = plain_world 1 1"
  have n: "ncv w = 1" "fl w = (\<lambda>x. x)" by (simp_all add: w_def plain_world_def)
  show ?thesis
    unfolding w_def [symmetric] using scan_wt_line(2) [folded w_def]
    by (simp add: readGaussians_def n read_height_def walker_fields addGaussian_def)
qed

lemma walker_step_sel:
  "getStep walker_step = 0"
  "hillsfiles walker_step 1 = Some [wt_line\<lparr>f_clock := Some 0\<rparr>]"
  by (simp_all add: walker_step_def step_in_def)



lemma peer_reads:
  assumes d: "dump_grid (deposit w s inp) inp = Inr s1"
    and m: "mw_n s = 2" "mw_id s = 0" "mw_rstride s \<noteq> 0" "getStep inp smod mw_rstride s = 0"
    and f: "ifiles s ! 1 = Some k" "hillsfiles inp 1 = Some lines"
  shows "update w s inp =
           (case readGaussians w s1 (drop k lines) of
              Inl e \<Rightarrow> Inl e
            | Inr sr \<Rightarrow> Inr (sr\<lparr>ifiles := (ifiles sr)[1 := Some (max k (length lines))]\<rparr>))"
proof -
  have dep: "mw_n (deposit w s inp) = mw_n s" "mw_id (deposit w s inp) = mw_id s"
    "mw_rstride (deposit w s inp) = mw_rstride s" "ifiles (deposit w s inp) = ifiles s"
    by (simp_all add: deposit_def Let_def addGaussian_frame)
  have s1: "mw_n s1 = 2" "mw_id s1 = 0" "mw_rstride s1 \<noteq> 0" "getStep inp smod mw_rstride s1 = 0"
    "ifiles s1 ! Suc 0 = Some k"
    using d dep m f by (auto simp: dump_grid_def split: if_splits option.splits)
  have l: "hillsfiles inp (Suc 0) = Some lines" using f(2) by simp
  have rw: "read_walkers w inp [0, Suc 0] s1 =
           (case readGaussians w s1 (drop k lines) of
              Inl e \<Rightarrow> Inl e
            | Inr sr \<Rightarrow> Inr (sr\<lparr>ifiles := (ifiles sr)[Suc 0 := Some (max k (length lines))]\<rparr>))"
    by (cases "readGaussians w s1 (drop k lines)") (simp_all add: s1 l)
  have "update w s inp = read_walkers w inp [0, Suc 0] s1"
    unfolding update_def by (simp add: d s1 upt_conv_Cons)
  then show ?thesis unfolding rw by (simp split: sum.splits)
qed





subsection \<open>The checks of the constructor\<close>

lemma ctor_Inr_checks:
  assumes "MetaD_ctor w opts = Inr s"
  obtains ad where "parse_adaptive opts = Inr ad" "check_basic w opts ad = None"
    "check_interval opts = None"
proof -
  from assms obtain ad where pa: "parse_adaptive opts = Inr ad"
    and ce: "config_error w opts ad = None"
    by (cases "parse_adaptive opts"; cases "config_error w opts (projr (parse_adaptive opts))")
       (simp_all add: MetaD_ctor_def)
  from ce have cb: "check_basic w opts ad = None"
    by (cases "check_basic w opts ad") (simp_all add: config_error_def)
  from ce cb have cg: "check_grid w opts = None"
    by (cases "check_grid w opts") (simp_all add: config_error_def)
  from ce cb cg have cw: "check_walkers opts = None"
    by (cases "check_walkers opts") (simp_all add: config_error_def)
  from ce cb cg cw have ci: "check_interval opts = None"
    by (simp add: config_error_def)
  from pa cb ci show ?thesis by (rule that)
qed

lemma constructor_rejections:
  assumes "or_default (kw_ADAPTIVE opts) ''NONE'' = ''NONE'' \<and> length (kw_SIGMA opts) \<noteq> ncv w
         \<or> kw_HEIGHT opts \<le> 0
         \<or> kw_PACE opts \<le> 0
         \<or> (\<exists>b. kw_BIASFACTOR opts = Some b \<and> 1 < b \<and> (kw_TEMP opts = None \<or> kw_TEMP opts = Some 0))
         \<or> (\<exists>b. kw_BIASFACTOR opts = Some b \<and> b < 1)
         \<or> or_default (kw_ADAPTIVE opts) ''NONE'' = ''NONE''
             \<and> or_default (kw_UPPER_INTERVAL opts) (- 1) \<noteq> or_default (kw_LOWER_INTERVAL opts) (- 1)
             \<and> ncv w \<noteq> 1
         \<or> or_default (kw_UPPER_INTERVAL opts) (- 1) < or_default (kw_LOWER_INTERVAL opts) (- 1)
         \<or> or_default (kw_ADAPTIVE opts) ''NONE'' \<in> {''GEOM'', ''DIFF''} \<and> length (kw_SIGMA opts) \<noteq> 1
         \<or> or_default (kw_ADAPTIVE opts) ''NONE'' \<notin> {''GEOM'', ''DIFF'', ''NONE''}"
  shows "\<exists>e. MetaD_ctor w opts = Inl e"
proof (cases "MetaD_ctor w opts")
  case (Inl e)
  then show ?thesis by blast
next
  case (Inr s)
  then obtain ad where pa: "parse_adaptive opts = Inr ad" and cb: "check_basic w opts ad = None"
    and ci: "check_interval opts = None"
    by (rule ctor_Inr_checks)
  let ?a = "or_default (kw_ADAPTIVE opts) ''NONE''"
  let ?bf = "or_default (kw_BIASFACTOR opts) 1"
  let ?upp = "or_default (kw_UPPER_INTERVAL opts) (- 1)"
  let ?low = "or_default (kw_LOWER_INTERVAL opts) (- 1)"
  from pa have ad: "?a \<in> {''GEOM'', ''DIFF'', ''NONE''}" "ad = none \<longleftrightarrow> ?a = ''NONE''"
    by (auto simp: parse_adaptive_def Let_def split: if_splits)
  from cb have b1: "ad = none \<longrightarrow> length (kw_SIGMA opts) = ncv w"
    and b2: "ad \<noteq> none \<longrightarrow> length (kw_SIGMA opts) = 1"
    and b3: "0 < kw_HEIGHT opts" and b4: "0 < kw_PACE opts" and b5: "1 \<le> ?bf"
    and b6: "?bf > 1 \<longrightarrow> or_default (kw_TEMP opts) 0 \<noteq> 0"
    by (auto simp: check_basic_def split: if_splits)
  from ci have i1: "?upp \<noteq> ?low \<longrightarrow> length (kw_SIGMA opts) = 1"
    and i2: "?low \<le> ?upp"
    by (auto simp: check_interval_def Let_def split: if_splits)
  from assms consider
      (sigma) "?a = ''NONE''" "length (kw_SIGMA opts) \<noteq> ncv w"
    | (height) "kw_HEIGHT opts \<le> 0"
    | (pace) "kw_PACE opts \<le> 0"
    | (temp) b where "kw_BIASFACTOR opts = Some b" "1 < b" "kw_TEMP opts = None \<or> kw_TEMP opts = Some 0"
    | (biasf) b where "kw_BIASFACTOR opts = Some b" "b < 1"
    | (dims) "?a = ''NONE''" "?upp \<noteq> ?low" "ncv w \<noteq> 1"
    | (order) "?upp < ?low"
    | (adaptive) "?a \<in> {''GEOM'', ''DIFF''}" "length (kw_SIGMA opts) \<noteq> 1"
    | (unknown) "?a \<notin> {''GEOM'', ''DIFF'', ''NONE''}"
    by blast
  then have False
  proof cases
    case sigma
    with ad(2) b1 show False by simp
  next
    case height
    with b3 show False by simp
  next
    case pace
    with b4 show False by simp
  next
    case temp
    with b6 show False by (auto simp: or_default_def)
  next
    case biasf
    with b5 show False by (simp add: or_default_def)
  next
    case dims
    with ad(2) b1 i1 show False by simp
  next
    case order
    with i2 show False by simp
  next
    case adaptive
    with ad(2) b2 show False by auto
  next
    case unknown
    with ad(1) show False by simp
  qed
  then show ?thesis ..
qed

text \<open>
  C7. The constructor is to reject the interval restriction with more than one CV. Its
  test is on the number of widths, which the adaptive schemes fix to one: with two CVs,
  \<open>ADAPTIVE=GEOM\<close>, one width and the interval \<open>[0, 1]\<close> the constructor returns a
  state with the restriction active. (The other conditions of the claim are rejected:
  \<open>constructor_rejections\<close>.)
\<close>

theorem adaptive_interval_accepted:
  "\<exists>s. MetaD_ctor (plain_world 2 1) adaptive_interval_options = Inr s
      \<and> ncv (plain_world 2 1) = 2 \<and> adaptive s = geometry \<and> doInt s
      \<and> lowI s = 0 \<and> uppI s = 1"
  by (simp add: MetaD_ctor_def parse_adaptive_def or_default_def plain_options_def
        adaptive_interval_options_def config_error_def check_basic_def check_grid_def
        check_walkers_def check_interval_def plain_world_def initial_state_def Let_def)

subsection \<open>Reading one hill record\<close>

lemma scan_periodicity_rejected:
  assumes "i < ncv w" "periodicity_error w line i \<noteq> None"
  shows "\<exists>e. scanOneHill w line c sg = Inl e"
proof -
  have "List.find (\<lambda>i. periodicity_error w line i \<noteq> None) [0..<ncv w] \<noteq> None"
    using assms by (auto simp: find_None_iff)
  then obtain j where "List.find (\<lambda>i. periodicity_error w line i \<noteq> None) [0..<ncv w] = Some j"
    by blast
  then show ?thesis by (simp add: scanOneHill_def)
qed

lemma scanOneHill_rejections:
  "(i < ncv w \<and> i < length (f_args line) \<and> snd (f_args line ! i) = Some d
      \<and> arg_domain w i \<noteq> Some d \<longrightarrow> (\<exists>e. scanOneHill w line c sg = Inl e))
   \<and> (f_multivariate line \<noteq> ''true'' \<and> f_multivariate line \<noteq> ''false''
      \<longrightarrow> (\<exists>e. scanOneHill w line c sg = Inl e))
   \<and> ((\<forall>i<ncv w. periodicity_error w line i = None)
      \<and> f_multivariate line \<noteq> ''true'' \<and> f_multivariate line \<noteq> ''false''
      \<longrightarrow> scanOneHill w line c sg
            = Inl (Fatal (''cannot parse multivariate = '' @ f_multivariate line)))
   \<and> scanOneHill w (line\<lparr>f_clock := k\<rparr>) c sg = scanOneHill w line c sg"
proof (intro conjI impI)
  assume a: "i < ncv w \<and> i < length (f_args line) \<and> snd (f_args line ! i) = Some d
      \<and> arg_domain w i \<noteq> Some d"
  then have "periodicity_error w line i \<noteq> None"
    by (cases d; cases "arg_domain w i") (auto simp: periodicity_error_def)
  with a show "\<exists>e. scanOneHill w line c sg = Inl e"
    by (intro scan_periodicity_rejected) simp_all
next
  assume m: "f_multivariate line \<noteq> ''true'' \<and> f_multivariate line \<noteq> ''false''"
  show "\<exists>e. scanOneHill w line c sg = Inl e"
  proof (cases "List.find (\<lambda>i. periodicity_error w line i \<noteq> None) [0..<ncv w]")
    case None
    with m show ?thesis by (simp add: scanOneHill_def)
  next
    case (Some j)
    then show ?thesis by (simp add: scanOneHill_def)
  qed
next
  assume a: "(\<forall>i<ncv w. periodicity_error w line i = None)
      \<and> f_multivariate line \<noteq> ''true'' \<and> f_multivariate line \<noteq> ''false''"
  then have "List.find (\<lambda>i. periodicity_error w line i \<noteq> None) [0..<ncv w] = None"
    by (simp add: find_None_iff)
  with a show "scanOneHill w line c sg
            = Inl (Fatal (''cannot parse multivariate = '' @ f_multivariate line))"
    by (simp add: scanOneHill_def)
next
  have p: "periodicity_error w (line\<lparr>f_clock := k\<rparr>) = periodicity_error w line"
    by (rule ext) (simp add: periodicity_error_def)
  have mf: "missing_field (line\<lparr>f_clock := k\<rparr>) = missing_field line"
    by (rule ext) (simp add: missing_field_def)
  have sf: "sigma_field (line\<lparr>f_clock := k\<rparr>) = sigma_field line"
    by (rule ext) (simp add: sigma_field_def)
  have sel: "f_args (line\<lparr>f_clock := k\<rparr>) = f_args line"
    "f_multivariate (line\<lparr>f_clock := k\<rparr>) = f_multivariate line"
    "f_height (line\<lparr>f_clock := k\<rparr>) = f_height line"
    by simp_all
  show "scanOneHill w (line\<lparr>f_clock := k\<rparr>) c sg = scanOneHill w line c sg"
    unfolding scanOneHill_def p mf sf sel ..
qed

text \<open>
  C8. \<open>scanOneHill\<close> is to raise a fatal error when the periodicity of a CV in the
  record does not match that of the run's CV. A record whose CV carries no periodicity
  is accepted for a run whose CV is periodic on \<open>[-pi, pi]\<close>: the test only looks at
  records that declare a period. (The other mismatches and an unknown shape flag are
  refused, and the clock field is ignored: \<open>scanOneHill_rejections\<close>.)
\<close>

theorem nonperiodic_record_accepted:
  "arg_domain periodic_world 0 = Some (''-pi'', ''pi'')
   \<and> snd (f_args nonperiodic_line ! 0) = None
   \<and> scanOneHill periodic_world nonperiodic_line [0] [0] = Inr ([1], [0.2], 0.3, False)"
  by (simp add: periodic_world_def nonperiodic_line_def scanOneHill_def plain_world_def
      periodicity_error_def missing_field_def sigma_field_def sigma_name_def Let_def)

subsection \<open>The neighbourhood of a hill and the splat on the grid\<close>

lemma axis_in_range:
  fixes c mn dx sg :: real and k :: nat
  assumes dx: "0 < dx" and sg: "0 < sg" and mn: "mn \<le> c"
    and near: "((mn + real k * dx - c) * (1 / sg))\<^sup>2 < 2 * DP2CUTOFF"
  shows "nat \<lfloor>(c - mn) / dx\<rfloor> - nat \<lceil>sqrt (2 * DP2CUTOFF) * sg / dx\<rceil> \<le> k
       \<and> k < nat \<lfloor>(c - mn) / dx\<rfloor> + nat \<lceil>sqrt (2 * DP2CUTOFF) * sg / dx\<rceil> + 1"
proof -
  define t where "t = (c - mn) / dx"
  define R where "R = sqrt (2 * DP2CUTOFF) * sg / dx"
  define k0 where "k0 = nat \<lfloor>t\<rfloor>"
  define N where "N = nat \<lceil>R\<rceil>"
  have t0: "0 \<le> t" using dx mn by (simp add: t_def)
  have k0: "real k0 \<le> t" "t < real k0 + 1"
    using t0 by (simp_all add: k0_def of_nat_floor)
  have N: "R \<le> real N" unfolding N_def by (rule real_nat_ceiling_ge)
  have "\<bar>(mn + real k * dx - c) * (1 / sg)\<bar>\<^sup>2 < 2 * DP2CUTOFF"
    using near by (simp only: power2_abs)
  then have "\<bar>(mn + real k * dx - c) * (1 / sg)\<bar> < sqrt (2 * DP2CUTOFF)"
    by (rule real_less_rsqrt)
  then have "\<bar>mn + real k * dx - c\<bar> / sg < sqrt (2 * DP2CUTOFF)"
    using sg by (simp add: abs_mult)
  then have a: "\<bar>mn + real k * dx - c\<bar> < sqrt (2 * DP2CUTOFF) * sg"
    using sg by (simp add: pos_divide_less_eq)
  have e: "mn + real k * dx - c = (real k - t) * dx"
    using dx by (simp add: t_def field_simps)
  have "\<bar>real k - t\<bar> * dx < sqrt (2 * DP2CUTOFF) * sg"
    using a dx unfolding e by (simp add: abs_mult)
  then have "\<bar>real k - t\<bar> < R"
    using dx by (simp add: R_def pos_less_divide_eq)
  with N have b: "\<bar>real k - t\<bar> < real N" by simp
  from b k0 have "real k < real k0 + real N + 1" by linarith
  then have u: "k < k0 + N + 1" by linarith
  from b k0 have "real k0 - real N < real k + 1" by linarith
  then have l: "k0 - N \<le> k" by linarith
  show ?thesis using u l unfolding k0_def N_def t_def R_def by simp
qed

lemma term_le_dp2:
  assumes "j < length cv" "dp2_diag w cv hill < DP2CUTOFF"
  shows "(difference w j (center hill ! j) (cv ! j) * invsigma hill ! j)\<^sup>2 < 2 * DP2CUTOFF"
proof -
  let ?t = "\<lambda>i. (difference w i (center hill ! i) (cv ! i) * invsigma hill ! i)\<^sup>2"
  have "?t j \<le> (\<Sum>i\<in>{..<length cv}. ?t i)"
    by (rule member_le_sum) (use assms(1) in simp_all)
  also have "\<dots> = 2 * dp2_diag w cv hill" by (simp add: dp2_diag_sum)
  also have "\<dots> < 2 * DP2CUTOFF" using assms(2) by simp
  finally show ?thesis .
qed

lemma dense_support_contains:
  assumes dims: "length (g_nbin g) = n" "length idx = n" "ncv w = n" "length sg = n"
    and w: "getDx w = g_dx" "difference w = plain_difference"
    and pos: "\<forall>i<n. 0 < g_dx g ! i" "\<forall>i<n. 1 / 10 ^ 20 < sg ! i" "\<forall>i<n. g_min g ! i \<le> c ! i"
    and rng: "\<forall>i<n. sqrt (2 * DP2CUTOFF) * sg ! i / g_dx g ! i \<le> 2 ^ 32 - 1"
    and cell: "\<forall>i<n. idx ! i < g_nbin g ! i"
    and near: "dp2_diag w (dg_getPoint g idx) (Gaussian_ctor c sg h False) < DP2CUTOFF"
  shows "idx \<in> set (dg_getNeighbors g (center (Gaussian_ctor c sg h False))
                       (getGaussianSupport w g (Gaussian_ctor c sg h False)))"
proof -
  let ?hill = "Gaussian_ctor c sg h False"
  let ?nn = "getGaussianSupport w g ?hill"
  let ?c = "dg_index g c"
  have sup: "?nn ! i = nat \<lceil>sqrt (2 * DP2CUTOFF) * sg ! i / g_dx g ! i\<rceil>" if "i < n" for i
  proof -
    have "(0::real) < 1 / 10 ^ 20" by simp
    also have "\<dots> < sg ! i" using pos(2) that by simp
    finally have sgi: "0 < sg ! i" .
    have dxi: "0 < g_dx g ! i" using pos(1) that by simp
    have "0 \<le> sqrt (2 * DP2CUTOFF) * sg ! i / g_dx g ! i"
      using sgi dxi by (simp add: DP2CUTOFF_def)
    then have "unsigned_ceil (sqrt (2 * DP2CUTOFF) * sg ! i / g_dx g ! i)
        = nat \<lceil>sqrt (2 * DP2CUTOFF) * sg ! i / g_dx g ! i\<rceil>"
      using rng that by (intro unsigned_ceil_in_range) simp_all
    then show ?thesis
      using that dims by (simp add: getGaussianSupport_def Gaussian_ctor_def w)
  qed
  have ci: "?c ! i = nat \<lfloor>(c ! i - g_min g ! i) / g_dx g ! i\<rfloor>" if "i < n" for i
    using that dims by (simp add: dg_index_def)
  have pt: "dg_getPoint g idx ! i = g_min g ! i + real (idx ! i) * g_dx g ! i" if "i < n" for i
    using that dims by (simp add: dg_getPoint_def)
  have lp: "length (dg_getPoint g idx) = n" using dims by (simp add: dg_getPoint_def)
  have inr: "idx ! i \<in> set (filter (\<lambda>k. k < g_nbin g ! i)
                 [?c ! i - ?nn ! i ..< ?c ! i + ?nn ! i + 1])" if i: "i < n" for i
  proof -
    have sgi: "0 < sg ! i"
    proof -
      have "(0::real) < 1 / 10 ^ 20" by simp
      also have "\<dots> < sg ! i" using pos(2) i by simp
      finally show ?thesis .
    qed
    have "1 / 10 ^ 20 < \<bar>sg ! i\<bar>" using pos(2) i sgi by (simp only: abs_of_pos)
    then have inv: "invsigma ?hill ! i = 1 / sg ! i"
      using i dims by (simp only: invsigma_ctor_nth if_True)
    have "(difference w i (center ?hill ! i) (dg_getPoint g idx ! i) * invsigma ?hill ! i)\<^sup>2
            < 2 * DP2CUTOFF"
      by (rule term_le_dp2) (use i lp near in simp_all)
    then have "((g_min g ! i + real (idx ! i) * g_dx g ! i - c ! i) * (1 / sg ! i))\<^sup>2
            < 2 * DP2CUTOFF"
      unfolding inv pt [OF i] w plain_difference_def by (simp add: Gaussian_ctor_def)
    from axis_in_range [OF _ sgi _ this] pos(1,3) i
    have "nat \<lfloor>(c ! i - g_min g ! i) / g_dx g ! i\<rfloor>
            - nat \<lceil>sqrt (2 * DP2CUTOFF) * sg ! i / g_dx g ! i\<rceil> \<le> idx ! i
        \<and> idx ! i < nat \<lfloor>(c ! i - g_min g ! i) / g_dx g ! i\<rfloor>
            + nat \<lceil>sqrt (2 * DP2CUTOFF) * sg ! i / g_dx g ! i\<rceil> + 1"
      by simp
    then show ?thesis
      unfolding sup [OF i] ci [OF i] set_filter set_upt using cell i by simp
  qed
  let ?rows = "map (\<lambda>i. filter (\<lambda>k. k < g_nbin g ! i) [?c ! i - ?nn ! i ..< ?c ! i + ?nn ! i + 1])
               [0..<n]"
  have len: "length idx = length ?rows" using dims by simp
  have nth: "\<forall>i<length idx. idx ! i \<in> set (?rows ! i)"
  proof (intro allI impI)
    fix i assume "i < length idx"
    then have i: "i < n" using dims by simp
    have "?rows ! i = filter (\<lambda>k. k < g_nbin g ! i) [?c ! i - ?nn ! i ..< ?c ! i + ?nn ! i + 1]"
      using i by (simp only: nth_map_upt diff_zero add_0)
    then show "idx ! i \<in> set (?rows ! i)" using inr [OF i] by (simp only:)
  qed
  from len nth have "list_all2 (\<lambda>x ys. x \<in> set ys) idx ?rows"
    by (simp only: list_all2_conv_all_nth simp_thms)
  then have "idx \<in> set (product_lists ?rows)"
    by (simp only: product_lists_set mem_Collect_eq)
  moreover have "center ?hill = c" by (simp add: Gaussian_ctor_def)
  ultimately show ?thesis
    unfolding dg_getNeighbors_def Let_def dims(1) by (simp only:)
qed

lemma max_autoval_upto:
  fixes vals :: "real list"
  shows "fold (\<lambda>i (m, k). if vals ! i > m then (vals ! i, i) else (m, k)) [0..<j] (0, n) = (m, k) \<Longrightarrow>
   (if \<exists>i<j. 0 < vals ! i
    then k < j \<and> m = vals ! k \<and> 0 < m \<and> (\<forall>i<j. vals ! i \<le> m)
    else m = 0 \<and> k = n)"
proof (induction j arbitrary: m k)
  case 0
  then show ?case by simp
next
  case (Suc j)
  obtain m0 k0 where f: "fold (\<lambda>i (m, k). if vals ! i > m then (vals ! i, i) else (m, k)) [0..<j] (0, n)
      = (m0, k0)"
    by (cases "fold (\<lambda>i (m, k). if vals ! i > m then (vals ! i, i) else (m, k)) [0..<j] (0, n)")
  note IH = Suc.IH [OF f]
  from Suc.prems f have mk: "(m, k) = (if vals ! j > m0 then (vals ! j, j) else (m0, k0))"
    by simp
  show ?case
  proof (cases "\<exists>i<j. 0 < vals ! i")
    case True
    with IH have a: "k0 < j" "m0 = vals ! k0" "0 < m0" "\<forall>i<j. vals ! i \<le> m0" by auto
    have ex: "\<exists>i<Suc j. 0 < vals ! i" using True less_Suc_eq by auto
    show ?thesis
    proof (cases "vals ! j > m0")
      case True
      with mk a ex show ?thesis by (auto simp: less_Suc_eq intro: order_trans less_imp_le)
    next
      case False
      with mk a ex show ?thesis by (auto simp: less_Suc_eq)
    qed
  next
    case False
    with IH have a: "m0 = 0" "k0 = n" by auto
    show ?thesis
    proof (cases "vals ! j > 0")
      case True
      have le0: "\<forall>i<j. vals ! i \<le> 0"
      proof (intro allI impI)
        fix i assume "i < j"
        with False have "\<not> 0 < vals ! i" by blast
        then show "vals ! i \<le> 0" by simp
      qed
      from mk a True have e: "m = vals ! j" "k = j" by simp_all
      have "vals ! i \<le> vals ! j" if "i < Suc j" for i
      proof (cases "i = j")
        case True
        then show ?thesis by simp
      next
        case False
        with that have "i < j" by simp
        with le0 have "vals ! i \<le> 0" by simp
        with \<open>vals ! j > 0\<close> show ?thesis by linarith
      qed
      with e True show ?thesis by auto
    next
      case False2: False
      with mk a False show ?thesis by (auto simp: less_Suc_eq)
    qed
  qed
qed

lemma max_autoval_spec:
  "max_autoval n vals = (m, k) \<Longrightarrow> \<exists>i<n. 0 < vals ! i \<Longrightarrow>
   k < n \<and> m = vals ! k \<and> 0 < m \<and> (\<forall>i<n. vals ! i \<le> m)"
  unfolding max_autoval_def using max_autoval_upto [of vals n n m k] by auto

lemma sum_list_indicator:
  "(0::nat) < (\<Sum>x\<leftarrow>xs. if x = k then 1 else 0) \<longleftrightarrow> k \<in> set xs"
  by (induction xs) auto

lemma in_strided:
  assumes "0 < P"
  shows "k \<in> set (strided P n i) \<longleftrightarrow> i \<le> k \<and> k < n \<and> k mod P = i mod P"
proof -
  have "(\<Sum>x\<leftarrow>strided P n i. if x = k then 1 else 0)
      = (\<Sum>x\<in>{x. i \<le> x \<and> x < n \<and> x mod P = i mod P}. if x = k then 1 else (0::nat))"
    by (rule strided_sum_from [OF assms])
  also have "\<dots> = (if k \<in> {x. i \<le> x \<and> x < n \<and> x mod P = i mod P} then 1 else 0)"
    by (rule sum.delta) simp
  finally show ?thesis
    using sum_list_indicator [of k "strided P n i"] by (simp split: if_splits)
qed

lemma comm_Sum_owner:
  fixes a :: real
  assumes "0 < P" "i < n"
  shows "comm_Sum P (\<lambda>r. if i \<in> set (strided P n r) then a else 0) = a"
proof -
  have "comm_Sum P (\<lambda>r. if i \<in> set (strided P n r) then a else 0)
      = (\<Sum>r\<in>{0..<P}. if i \<in> set (strided P n r) then a else 0)"
    by (simp add: comm_Sum_def interv_sum_list_conv_sum_set_nat)
  also have "\<dots> = (\<Sum>r\<in>{0..<P}. if r = i mod P then a else 0)"
  proof (rule sum.cong [OF refl])
    fix r assume "r \<in> {0..<P}"
    then have r: "r < P" by simp
    have "i \<in> set (strided P n r) \<longleftrightarrow> r = i mod P"
      unfolding in_strided [OF assms(1)]
      using assms(2) r mod_less_eq_dividend [of i P] by auto
    then show "(if i \<in> set (strided P n r) then a else 0) = (if r = i mod P then a else 0)"
      by simp
  qed
  also have "\<dots> = a" using assms(1) by (simp add: sum.delta)
  finally show ?thesis .
qed

lemma add_into_zeros: "length c = n \<Longrightarrow> add_into (replicate n 0) c = c"
  by (rule nth_equalityI) (simp_all add: add_into_length add_into_nth)

lemma fold_fixed_point:
  assumes inv: "\<And>g' c v d c'. getPoint w (addValueAndDerivatives w g' c v d) c' = getPoint w g' c'"
    and p: "\<And>c. getPoint w g c = p c"
  shows "fold (\<lambda>c g'. addValueAndDerivatives w g' c (B (getPoint w g' c)) (D (getPoint w g' c))) cs g
       = fold (\<lambda>c g'. addValueAndDerivatives w g' c (B (p c)) (D (p c))) cs g"
  using p
proof (induction cs arbitrary: g)
  case Nil
  then show ?case by simp
next
  case (Cons c cs)
  have "\<And>c'. getPoint w (addValueAndDerivatives w g c (B (p c)) (D (p c))) c' = p c'"
    using inv Cons.prems by simp
  from Cons.IH [OF this] Cons.prems show ?case by simp
qed

lemma fold_nth: "fold (\<lambda>i. F (xs ! i)) [0..<length xs] g = fold F xs g"
proof -
  have "fold F (map ((!) xs) [0..<length xs]) g = fold (F \<circ> (!) xs) [0..<length xs] g"
    by (simp only: fold_map)
  then show ?thesis by (simp add: map_nth comp_def)
qed

lemma splat_serial:
  assumes "grid s" "BiasGrid s = Some g" "comm_size w = 1"
    and len: "\<And>c. length (getPoint w g c) = ncv w"
    and inv: "\<And>g' c v d c'. getPoint w (addValueAndDerivatives w g' c v d) c' = getPoint w g' c'"
  shows "BiasGrid (addGaussian w s hill)
       = Some (fold (\<lambda>c g'. addValueAndDerivatives w g' c
                        (gauss_bias w s (getPoint w g c) hill) (gauss_der w s (getPoint w g c) hill))
                 (getNeighbors w g (center hill) (getGaussianSupport w g hill)) g)"
proof -
  let ?z = "replicate (ncv w) (0::real)"
  have z: "add_into ?z (gauss_der w s (getPoint w g c) hill) = gauss_der w s (getPoint w g c) hill"
    for c
    by (rule add_into_zeros) (simp add: length_gauss_der len)
  have "BiasGrid (addGaussian w s hill)
       = Some (fold (\<lambda>c g'. addValueAndDerivatives w g' c
                        (gauss_bias w s (getPoint w g' c) hill)
                        (add_into ?z (gauss_der w s (getPoint w g' c) hill)))
                 (getNeighbors w g (center hill) (getGaussianSupport w g hill)) g)"
    using assms(1,2,3) by (simp add: addGaussian_def evaluateGaussian_def Let_def)
  also have "\<dots> = Some (fold (\<lambda>c g'. addValueAndDerivatives w g' c
                        (gauss_bias w s (getPoint w g c) hill)
                        (add_into ?z (gauss_der w s (getPoint w g c) hill)))
                 (getNeighbors w g (center hill) (getGaussianSupport w g hill)) g)"
    using fold_fixed_point [of w g "getPoint w g" "\<lambda>x. gauss_bias w s x hill"
        "\<lambda>x. add_into ?z (gauss_der w s x hill)", OF inv] by simp
  finally show ?thesis by (simp only: z)
qed

lemma splat_parallel:
  assumes "grid s" "BiasGrid s = Some g" "1 < comm_size w"
    and len: "\<And>c. length (getPoint w g c) = ncv w"
  shows "BiasGrid (addGaussian w s hill)
       = Some (fold (\<lambda>c g'. addValueAndDerivatives w g' c
                        (gauss_bias w s (getPoint w g c) hill) (gauss_der w s (getPoint w g c) hill))
                 (getNeighbors w g (center hill) (getGaussianSupport w g hill)) g)"
proof -
  let ?nb = "getNeighbors w g (center hill) (getGaussianSupport w g hill)"
  let ?P = "comm_size w"
  let ?z = "replicate (ncv w) (0::real)"
  have P: "0 < ?P" using assms(3) by simp
  have z: "add_into ?z (gauss_der w s (getPoint w g c) hill)
         = gauss_der w s (getPoint w g c) hill" for c
    by (rule add_into_zeros) (simp add: length_gauss_der len)
  have loc: "local_splat w s g hill ?nb r ! i
      = (if i \<in> set (strided ?P (length ?nb) r)
         then (gauss_bias w s (getPoint w g (?nb ! i)) hill, gauss_der w s (getPoint w g (?nb ! i)) hill)
         else (0, ?z))" if "i < length ?nb" for i r
    using that by (simp add: local_splat_def evaluateGaussian_def z)
  have b: "comm_Sum ?P (\<lambda>r. fst (local_splat w s g hill ?nb r ! i))
         = gauss_bias w s (getPoint w g (?nb ! i)) hill" if i: "i < length ?nb" for i
  proof -
    have "(\<lambda>r. fst (local_splat w s g hill ?nb r ! i))
        = (\<lambda>r. if i \<in> set (strided ?P (length ?nb) r)
               then gauss_bias w s (getPoint w g (?nb ! i)) hill else 0)"
      by (rule ext) (simp add: loc [OF i])
    then show ?thesis using comm_Sum_owner [OF P i] by simp
  qed
  have d: "comm_Sum_vec ?P (ncv w) (\<lambda>r. snd (local_splat w s g hill ?nb r ! i))
         = gauss_der w s (getPoint w g (?nb ! i)) hill" if i: "i < length ?nb" for i
  proof (rule nth_equalityI)
    show "length (comm_Sum_vec ?P (ncv w) (\<lambda>r. snd (local_splat w s g hill ?nb r ! i)))
        = length (gauss_der w s (getPoint w g (?nb ! i)) hill)"
      by (simp add: comm_Sum_vec_def length_gauss_der len)
  next
    fix j assume "j < length (comm_Sum_vec ?P (ncv w) (\<lambda>r. snd (local_splat w s g hill ?nb r ! i)))"
    then have j: "j < ncv w" by (simp add: comm_Sum_vec_def)
    have "(\<lambda>r. snd (local_splat w s g hill ?nb r ! i) ! j)
        = (\<lambda>r. if i \<in> set (strided ?P (length ?nb) r)
               then gauss_der w s (getPoint w g (?nb ! i)) hill ! j else 0)"
      by (rule ext) (simp add: loc [OF i] j)
    then show "comm_Sum_vec ?P (ncv w) (\<lambda>r. snd (local_splat w s g hill ?nb r ! i)) ! j
        = gauss_der w s (getPoint w g (?nb ! i)) hill ! j"
      using comm_Sum_owner [OF P i] j by (simp add: comm_Sum_vec_def)
  qed
  have "BiasGrid (addGaussian w s hill)
      = Some (fold (\<lambda>i g'. addValueAndDerivatives w g' (?nb ! i)
                      (comm_Sum ?P (\<lambda>r. fst (local_splat w s g hill ?nb r ! i)))
                      (comm_Sum_vec ?P (ncv w) (\<lambda>r. snd (local_splat w s g hill ?nb r ! i))))
                [0..<length ?nb] g)"
    using assms(1,2,3) by (simp add: addGaussian_def Let_def)
  also have "\<dots> = Some (fold (\<lambda>i g'. addValueAndDerivatives w g' (?nb ! i)
                      (gauss_bias w s (getPoint w g (?nb ! i)) hill)
                      (gauss_der w s (getPoint w g (?nb ! i)) hill))
                [0..<length ?nb] g)"
  proof -
    have "fold (\<lambda>i g'. addValueAndDerivatives w g' (?nb ! i)
                      (comm_Sum ?P (\<lambda>r. fst (local_splat w s g hill ?nb r ! i)))
                      (comm_Sum_vec ?P (ncv w) (\<lambda>r. snd (local_splat w s g hill ?nb r ! i))))
                [0..<length ?nb] g
        = fold (\<lambda>i g'. addValueAndDerivatives w g' (?nb ! i)
                      (gauss_bias w s (getPoint w g (?nb ! i)) hill)
                      (gauss_der w s (getPoint w g (?nb ! i)) hill))
                [0..<length ?nb] g"
      by (rule fold_cong) (simp_all add: b d)
    then show ?thesis by (simp only:)
  qed
  also have "\<dots> = Some (fold (\<lambda>c g'. addValueAndDerivatives w g' c
                        (gauss_bias w s (getPoint w g c) hill) (gauss_der w s (getPoint w g c) hill))
                 ?nb g)"
    using fold_nth [of "\<lambda>c g'. addValueAndDerivatives w g' c
                        (gauss_bias w s (getPoint w g c) hill) (gauss_der w s (getPoint w g c) hill)"
                     ?nb g]
    by simp
  finally show ?thesis .
qed

lemma tilted_matrix:
  "matrix_rows 2 (mymatrix 2 (sigma tilted_hill)) = [[1 / 4, 0], [0, 1]]"
  by (simp add: matrix_rows_def mymatrix_def upper_pairs_def tilted_hill_def Gaussian_ctor_def
      upt_conv_Cons)

lemma tilted_eigen:
  "diagMat (plain_world 2 1) (Invert (plain_world 2 1) [[1 / 4, 0], [0, 1]])
     = ([1, 4], [[0, 1], [1, 0]])"
  by (simp add: plain_world_def diag_Invert_def diag_diagMat_def diag_order_def matrix_rows_def
      upt_conv_Cons)

lemma ceiling_sqrt_cutoff_twice: "\<lceil>sqrt (2 * DP2CUTOFF) * 2\<rceil> = 8"
proof -
  have "sqrt ((7 / 2)\<^sup>2) < sqrt (2 * DP2CUTOFF)"
    unfolding DP2CUTOFF_def by (subst real_sqrt_less_iff) (simp add: power2_eq_square)
  then have l: "7 / 2 < sqrt (2 * DP2CUTOFF)" by (simp only: real_sqrt_abs)
  show ?thesis using l sqrt_cutoff_bounds(2) by (simp add: ceiling_unique)
qed

lemma max_autoval_tilted: "max_autoval 2 [1, 4] = (4, 1)"
  by (simp add: max_autoval_def upt_conv_Cons)

lemma tilted_support:
  "getGaussianSupport (plain_world 2 1) square_grid tilted_hill = [8, 0]"
proof -
  define w where "w = plain_world 2 1"
  have sel: "ncv w = 2" "getDx w square_grid = [1, 1]"
    by (simp_all add: w_def plain_world_def square_grid_def)
  have mv: "multivariate tilted_hill" by (simp add: tilted_hill_def Gaussian_ctor_def)
  have e: "diagMat w (Invert w (matrix_rows 2 (mymatrix 2 (sigma tilted_hill))))
     = ([1, 4], [[0, 1], [1, 0]])"
    unfolding tilted_matrix w_def by (rule tilted_eigen)
  have "getGaussianSupport w square_grid tilted_hill = [8, 0]"
    unfolding getGaussianSupport_def
    by (simp add: mv sel e max_autoval_tilted Let_def upt_conv_Cons unsigned_ceil_def
        ceiling_sqrt_cutoff_twice)
  then show ?thesis unfolding w_def .
qed

lemma tilted_neighbors:
  "dg_getNeighbors square_grid [2, 2] [8, 0] = [[0, 2], [1, 2], [2, 2], [3, 2], [4, 2]]"
  by (simp add: dg_getNeighbors_def dg_index_def square_grid_def Let_def upt_conv_Cons)

lemma tilted_near:
  "dp2_multi (plain_world 2 1) (dg_getPoint square_grid [2, 3]) tilted_hill = 1 / 2"
  by (simp add: dp2_multi_def dp_multi_def dg_getPoint_def square_grid_def tilted_hill_def
      Gaussian_ctor_def plain_world_def plain_difference_def mymatrix_def upper_pairs_def
      Let_def upt_conv_Cons)

lemma support_isotropic:
  "\<not> multivariate hill \<Longrightarrow>
   getGaussianSupport w g hill
     = map (\<lambda>i. unsigned_ceil (sqrt (2 * 6.25) * sigma hill ! i / getDx w g ! i)) [0..<ncv w]"
  by (simp add: getGaussianSupport_def DP2CUTOFF_def)

lemma support_multivariate:
  assumes "multivariate hill"
    and e: "diagMat w (Invert w (matrix_rows (ncv w) (mymatrix (ncv w) (sigma hill)))) = (vals, vecs)"
    and pos: "\<exists>i<ncv w. 0 < vals ! i"
  shows "\<exists>k<ncv w. (\<forall>i<ncv w. vals ! i \<le> vals ! k) \<and> 0 < vals ! k \<and>
           getGaussianSupport w g hill
             = map (\<lambda>i. unsigned_ceil (sqrt (2 * 6.25) * \<bar>sqrt (vals ! k) * (vecs ! i ! k)\<bar>
                              / getDx w g ! i)) [0..<ncv w]"
proof -
  obtain m k where mk: "max_autoval (ncv w) vals = (m, k)"
    by (cases "max_autoval (ncv w) vals")
  from max_autoval_spec [OF mk pos]
  have k: "k < ncv w" "m = vals ! k" "0 < m" "\<forall>i<ncv w. vals ! i \<le> m" by blast+
  have "getGaussianSupport w g hill
             = map (\<lambda>i. unsigned_ceil (sqrt (2 * 6.25) * \<bar>sqrt (vals ! k) * (vecs ! i ! k)\<bar>
                              / getDx w g ! i)) [0..<ncv w]"
    using assms(1) by (simp add: getGaussianSupport_def Let_def e mk k(2) DP2CUTOFF_def)
  moreover have "\<forall>i<ncv w. vals ! i \<le> vals ! k" "0 < vals ! k"
    using k(3,4) unfolding k(2) by blast+
  ultimately show ?thesis using k(1) by blast
qed

lemma dg_cell_other:
  "idx \<noteq> c \<Longrightarrow> dg_cell (dg_addValueAndDerivatives g c v d) idx = dg_cell g idx"
  by (simp add: dg_cell_def dg_addValueAndDerivatives_def Let_def split: option.splits)

lemma dg_cell_fold_other:
  "idx \<notin> set cs \<Longrightarrow>
   dg_cell (fold (\<lambda>c g'. dg_addValueAndDerivatives g' c (v c) (d c)) cs g) idx = dg_cell g idx"
  by (induction cs arbitrary: g) (simp_all add: dg_cell_other)

lemma ctor_tilted: "MetaD_ctor (plain_world 2 1) tilted_options = Inr tilted_state"
  by (simp add: MetaD_ctor_def parse_adaptive_def or_default_def plain_options_def
        config_error_def check_basic_def check_grid_def check_walkers_def check_interval_def
        plain_world_def initial_state_def tilted_options_def Let_def tilted_state_def)

lemma tilted_fields:
  "grid tilted_state" "\<not> doInt tilted_state" "BiasGrid tilted_state = Some square_grid"
  "\<not> welltemp tilted_state" "height0 tilted_state = 1" "stride tilted_state = 1"
  "adaptive tilted_state = geometry" "isFirstStep tilted_state" "wgridstride tilted_state = 0"
  "mw_n tilted_state = 1" "hillsOfile tilted_state = []"
  by (simp_all add: tilted_state_def initial_state_def tilted_options_def plain_options_def
      or_default_def plain_world_def square_grid_def Let_def)

lemma tilted_first:
  "update (plain_world 2 1) tilted_state (step_in 0 [2, 2])
     = Inr (tilted_state\<lparr>isFirstStep := False\<rparr>)"
  by (simp add: update_def deposit_def dump_grid_def nowAddAHill_def step_in_sel tilted_fields)

lemma tilted_newhill:
  "newhill (plain_world 2 1) (tilted_state\<lparr>isFirstStep := False\<rparr>) tilted_step = tilted_hill"
  by (simp add: newhill_def getHeight_def tilted_fields tilted_step_def step_in_def
      tilted_hill_def)

lemma tilted_second:
  "update (plain_world 2 1) (tilted_state\<lparr>isFirstStep := False\<rparr>) tilted_step
     = Inr (deposit (plain_world 2 1) (tilted_state\<lparr>isFirstStep := False\<rparr>) tilted_step)"
  by (simp add: update_def dump_grid_def deposit_fields tilted_fields)

lemma dg_fold_frame:
  "g_min (fold (\<lambda>c g'. dg_addValueAndDerivatives g' c (v c) (d c)) cs g) = g_min g
   \<and> g_dx (fold (\<lambda>c g'. dg_addValueAndDerivatives g' c (v c) (d c)) cs g) = g_dx g
   \<and> g_nbin (fold (\<lambda>c g'. dg_addValueAndDerivatives g' c (v c) (d c)) cs g) = g_nbin g"
  by (induction cs arbitrary: g) (simp_all add: dg_addValueAndDerivatives_def Let_def)

lemma dg_getValue_fold_other:
  assumes "dg_index g x \<notin> set cs"
  shows "dg_getValue (fold (\<lambda>c g'. dg_addValueAndDerivatives g' c (v c) (d c)) cs g) x
           = dg_getValue g x"
proof -
  let ?g = "fold (\<lambda>c g'. dg_addValueAndDerivatives g' c (v c) (d c)) cs g"
  have "dg_index ?g x = dg_index g x" by (simp add: dg_index_def dg_fold_frame)
  then show ?thesis
    using assms by (simp add: dg_getValue_def dg_cell_fold_other)
qed

lemma upright_support:
  "getGaussianSupport (plain_world 2 1) square_grid (Gaussian_ctor [2, 2] [2, 1] 1 False) = [8, 4]"
proof -
  have a: "\<lceil>sqrt (2 * DP2CUTOFF) * 2\<rceil> = 8" by (rule ceiling_sqrt_cutoff_twice)
  have b: "\<lceil>sqrt (2 * DP2CUTOFF)\<rceil> = 4" by (rule ceiling_sqrt_cutoff)
  show ?thesis
    using a b
    by (simp add: getGaussianSupport_def unsigned_ceil_def Gaussian_ctor_def plain_world_def
        square_grid_def upt_conv_Cons)
qed

lemma tilted_grid:
  "BiasGrid (addGaussian (plain_world 2 1) (tilted_state\<lparr>isFirstStep := False\<rparr>) tilted_hill)
     = Some (fold (\<lambda>c g'. dg_addValueAndDerivatives g' c
                (gauss_bias (plain_world 2 1) (tilted_state\<lparr>isFirstStep := False\<rparr>)
                   (dg_getPoint square_grid c) tilted_hill)
                (gauss_der (plain_world 2 1) (tilted_state\<lparr>isFirstStep := False\<rparr>)
                   (dg_getPoint square_grid c) tilted_hill))
             [[0, 2], [1, 2], [2, 2], [3, 2], [4, 2]] square_grid)"
proof -
  define w where "w = plain_world 2 1"
  define s where "s = tilted_state\<lparr>isFirstStep := False\<rparr>"
  have sel: "comm_size w = 1" "ncv w = 2" "getPoint w = dg_getPoint"
    "addValueAndDerivatives w = dg_addValueAndDerivatives" "getNeighbors w = dg_getNeighbors"
    by (simp_all add: w_def plain_world_def)
  have sf: "grid s" "BiasGrid s = Some square_grid" by (simp_all add: s_def tilted_fields)
  have len: "length (getPoint w square_grid c) = ncv w" for c
    by (simp add: sel dg_getPoint_def square_grid_def)
  have inv: "getPoint w (addValueAndDerivatives w g' c v d) c' = getPoint w g' c'" for g' c v d c'
    by (simp add: sel dg_getPoint_def dg_addValueAndDerivatives_def Let_def)
  have c: "center tilted_hill = [2, 2]" by (simp add: tilted_hill_def Gaussian_ctor_def)
  have sup: "getGaussianSupport w square_grid tilted_hill = [8, 0]"
    unfolding w_def by (rule tilted_support)
  from splat_serial [OF sf sel(1) len inv, of tilted_hill]
  have "BiasGrid (addGaussian w s tilted_hill)
     = Some (fold (\<lambda>c g'. dg_addValueAndDerivatives g' c
                (gauss_bias w s (dg_getPoint square_grid c) tilted_hill)
                (gauss_der w s (dg_getPoint square_grid c) tilted_hill))
             [[0, 2], [1, 2], [2, 2], [3, 2], [4, 2]] square_grid)"
    by (simp only: sup c sel tilted_neighbors)
  then show ?thesis unfolding w_def s_def .
qed

text \<open>
  C6. In grid mode \<^verbatim>\<open>addGaussian\<close> is to splat a hill onto a neighbourhood that contains
  every grid point whose normalised squared distance from the centre is below the
  cutoff. The splat adds the output of the Gaussian evaluator at each neighbour and
  nowhere else (\<open>splat_serial\<close>, \<open>splat_parallel\<close>), and for an isotropic hill the
  neighbourhood does contain these points, as long as the half-widths are in the range
  of an \<^verbatim>\<open>unsigned\<close> (\<open>dense_support_contains\<close>). For a full-covariance hill only the
  largest eigenvalue and the entries \<^verbatim>\<open>myautovec(i,ind_maxautoval)\<close> enter the half-widths
  (\<open>support_multivariate\<close>), and points under the cutoff are left out.

  The run: two CVs, \<^verbatim>\<open>ADAPTIVE=GEOM\<close>, a grid of 5 by 5 points; the second call of
  \<^verbatim>\<open>update\<close> deposits at \<open>[2, 2]\<close> the hill with covariance \<open>diag(4, 1)\<close>. Its
  half-widths are 8 cells on the first axis and 0 on the second, so that the
  neighbours are the five points of the row through the centre. The grid point
  \<open>[2, 3]\<close> has normalised squared distance \<open>1/2 < 6.25\<close> and the Gaussian there is
  \<open>exp (-1/2)\<close>, but the bias read from the grid at that point is 0. The isotropic hill
  of the same shape (widths 2 and 1) has half-widths 8 and 4.
\<close>

theorem tilted_hill_truncated:
  "case MetaD_ctor (plain_world 2 1) tilted_options of
     Inl e \<Rightarrow> False
   | Inr s0 \<Rightarrow>
      (case updates (plain_world 2 1) s0 [step_in 0 [2, 2], tilted_step] of
         Inl e \<Rightarrow> False
       | Inr s2 \<Rightarrow>
           grid s2 \<and> multivariate tilted_hill
         \<and> BiasGrid s2
             = BiasGrid (addGaussian (plain_world 2 1) (s0\<lparr>isFirstStep := False\<rparr>) tilted_hill)
         \<and> getGaussianSupport (plain_world 2 1) square_grid tilted_hill = [8, 0]
         \<and> getNeighbors (plain_world 2 1) square_grid (center tilted_hill) [8, 0]
             = [[0, 2], [1, 2], [2, 2], [3, 2], [4, 2]]
         \<and> getPoint (plain_world 2 1) square_grid [2, 3] = [2, 3]
         \<and> dp2_multi (plain_world 2 1) [2, 3] tilted_hill = 1 / 2
         \<and> gauss_bias (plain_world 2 1) s2 [2, 3] tilted_hill = exp (- (1 / 2))
         \<and> getBiasAndDerivatives (plain_world 2 1) s2 [2, 3] None = (0, None)
         \<and> getGaussianSupport (plain_world 2 1) square_grid
               (Gaussian_ctor [2, 2] [2, 1] 1 False) = [8, 4])"
proof -
  define w where "w = plain_world 2 1"
  define s1 where "s1 = tilted_state\<lparr>isFirstStep := False\<rparr>"
  define s2 where "s2 = deposit w s1 tilted_step"
  have sel: "getPoint w = dg_getPoint" "getNeighbors w = dg_getNeighbors"
    "getValue w = dg_getValue"
    by (simp_all add: w_def plain_world_def)
  have run: "updates w tilted_state [step_in 0 [2, 2], tilted_step] = Inr s2"
    using tilted_first tilted_second by (simp add: w_def s1_def s2_def)
  have now: "nowAddAHill s1 tilted_step"
    by (simp add: nowAddAHill_def s1_def tilted_fields tilted_step_def step_in_def
        signed_modulo_int_def)
  have nh: "newhill w s1 tilted_step = tilted_hill"
    unfolding w_def s1_def by (rule tilted_newhill)
  have g2: "BiasGrid s2 = BiasGrid (addGaussian w s1 tilted_hill)"
    using now by (simp add: s2_def deposit_def nh Let_def)
  have f2: "grid s2" "\<not> doInt s2"
    using now by (simp_all add: s2_def deposit_def Let_def addGaussian_def s1_def tilted_fields)
  have c: "center tilted_hill = [2, 2]" "multivariate tilted_hill" "height tilted_hill = 1"
    by (simp_all add: tilted_hill_def Gaussian_ctor_def)
  have pt: "dg_getPoint square_grid [2, 3] = [2, 3]"
    by (simp add: dg_getPoint_def square_grid_def upt_conv_Cons)
  have near: "dp2_multi w [2, 3] tilted_hill = 1 / 2"
    using tilted_near unfolding pt w_def .
  have gb: "gauss_bias w s2 [2, 3] tilted_hill = exp (- (1 / 2))"
    by (simp add: gauss_bias_def c near DP2CUTOFF_def interval_open_def f2)
  have ix: "dg_index square_grid [2, 3] = [2, 3]"
    by (simp add: dg_index_def square_grid_def upt_conv_Cons)
  have "dg_getValue (the (BiasGrid s2)) [2, 3] = dg_getValue square_grid [2, 3]"
    unfolding g2 w_def s1_def tilted_grid option.sel
    by (rule dg_getValue_fold_other) (simp add: ix)
  also have "\<dots> = 0" by (simp add: dg_getValue_def dg_cell_def ix square_grid_def)
  finally have q: "getBiasAndDerivatives w s2 [2, 3] None = (0, None)"
    using f2(1) by (simp add: getBiasAndDerivatives_def sel)
  have ctor: "MetaD_ctor w tilted_options = Inr tilted_state"
    unfolding w_def by (rule ctor_tilted)
  have "grid s2 \<and> multivariate tilted_hill
         \<and> BiasGrid s2 = BiasGrid (addGaussian w (tilted_state\<lparr>isFirstStep := False\<rparr>) tilted_hill)
         \<and> getGaussianSupport w square_grid tilted_hill = [8, 0]
         \<and> getNeighbors w square_grid (center tilted_hill) [8, 0]
             = [[0, 2], [1, 2], [2, 2], [3, 2], [4, 2]]
         \<and> getPoint w square_grid [2, 3] = [2, 3]
         \<and> dp2_multi w [2, 3] tilted_hill = 1 / 2
         \<and> gauss_bias w s2 [2, 3] tilted_hill = exp (- (1 / 2))
         \<and> getBiasAndDerivatives w s2 [2, 3] None = (0, None)
         \<and> getGaussianSupport w square_grid (Gaussian_ctor [2, 2] [2, 1] 1 False) = [8, 4]"
    using f2(1) c(2) g2 [unfolded s1_def] tilted_support [folded w_def]
      tilted_neighbors pt near gb q upright_support [folded w_def]
    by (simp only: sel c(1) simp_thms)
  then show ?thesis
    unfolding w_def [symmetric] by (simp only: ctor run sum.case)
qed

subsection \<open>When a hill is deposited\<close>

lemma gauss_same:
  assumes "doInt s = doInt t" "lowI s = lowI t" "uppI s = uppI t"
  shows "gauss_bias w s cv h = gauss_bias w t cv h" "gauss_der w s cv h = gauss_der w t cv h"
    "evaluateGaussian w s cv h der = evaluateGaussian w t cv h der"
proof -
  have i: "interval_open s x = interval_open t x" for x
    using assms by (simp add: interval_open_def)
  show b: "gauss_bias w s cv h = gauss_bias w t cv h"
    by (simp add: gauss_bias_def i Let_def cong: if_cong)
  show d: "gauss_der w s cv h = gauss_der w t cv h"
    by (simp add: gauss_der_def i b Let_def cong: if_cong)
  show "evaluateGaussian w s cv h der = evaluateGaussian w t cv h der"
    by (simp add: evaluateGaussian_def b d split: option.splits)
qed

lemma addGaussian_same:
  assumes "same_bias s t"
  shows "same_bias (addGaussian w s h) (addGaussian w t h)"
proof -
  have e: "evaluateGaussian w s cv h' der = evaluateGaussian w t cv h' der" for cv h' der
    using assms by (intro gauss_same) simp_all
  have l: "local_splat w s g h' nb r = local_splat w t g h' nb r" for g h' nb r
    by (simp add: local_splat_def e)
  show ?thesis
    using assms by (simp add: addGaussian_def Let_def e l)
qed

lemma replay_same:
  "same_bias s t \<Longrightarrow>
   same_bias (fold (\<lambda>h u. addGaussian w u h) hs s) (fold (\<lambda>h u. addGaussian w u h) hs t)"
proof (induction hs arbitrary: s t)
  case Nil
  then show ?case by simp
next
  case (Cons h hs)
  from addGaussian_same [OF Cons.prems, of w h]
  have "same_bias (fold (\<lambda>h u. addGaussian w u h) hs (addGaussian w s h))
                  (fold (\<lambda>h u. addGaussian w u h) hs (addGaussian w t h))"
    by (rule Cons.IH)
  then show ?case by simp
qed

lemma readGaussians_loop_replay:
  "readGaussians_loop w s c sg ls = Inr s' \<Longrightarrow> \<exists>hs. s' = fold (\<lambda>h u. addGaussian w u h) hs s"
proof (induction ls arbitrary: s c sg)
  case Nil
  then have "s' = fold (\<lambda>h u. addGaussian w u h) [] s" by simp
  then show ?case by blast
next
  case (Cons l ls)
  from Cons.prems obtain c' sg' h mv where
    sc: "scanOneHill w l c sg = Inr (c', sg', h, mv)"
    and rest: "readGaussians_loop w
          (addGaussian w s (Gaussian_ctor c' sg' (read_height w s h) mv)) c' sg' ls = Inr s'"
    by (auto split: sum.splits prod.splits)
  from Cons.IH [OF rest] obtain hs where
    "s' = fold (\<lambda>h u. addGaussian w u h) hs
            (addGaussian w s (Gaussian_ctor c' sg' (read_height w s h) mv))"
    by blast
  then have "s' = fold (\<lambda>h u. addGaussian w u h)
                    (Gaussian_ctor c' sg' (read_height w s h) mv # hs) s"
    by simp
  then show ?case by blast
qed

lemma read_walkers_replay:
  "read_walkers w inp is s = Inr s' \<Longrightarrow>
   \<exists>hs. same_bias s' (fold (\<lambda>h u. addGaussian w u h) hs s)"
proof (induction "is" arbitrary: s)
  case Nil
  then have "same_bias s' (fold (\<lambda>h u. addGaussian w u h) [] s)" by simp
  then show ?case by blast
next
  case (Cons i "is")
  show ?case
  proof (cases "int i = mw_id s")
    case True
    with Cons.prems have "read_walkers w inp is s = Inr s'" by simp
    then show ?thesis by (rule Cons.IH)
  next
    case False
    show ?thesis
    proof (cases "ifiles s ! i")
      case None
      show ?thesis
      proof (cases "hillsfiles inp i = None")
        case True
        with None False Cons.prems have "read_walkers w inp is s = Inr s'" by simp
        then show ?thesis by (rule Cons.IH)
      next
        case nz: False
        with None False Cons.prems
        have "read_walkers w inp is (s\<lparr>ifiles := (ifiles s)[i := Some 0]\<rparr>) = Inr s'" by simp
        from Cons.IH [OF this] obtain hs where
          a: "same_bias s' (fold (\<lambda>h u. addGaussian w u h) hs (s\<lparr>ifiles := (ifiles s)[i := Some 0]\<rparr>))"
          by blast
        have "same_bias (s\<lparr>ifiles := (ifiles s)[i := Some 0]\<rparr>) s" by simp
        from replay_same [OF this, of w hs] a
        have "same_bias s' (fold (\<lambda>h u. addGaussian w u h) hs s)" by simp
        then show ?thesis by blast
      qed
    next
      case (Some k)
      let ?lines = "case hillsfiles inp i of None \<Rightarrow> [] | Some ls \<Rightarrow> ls"
      from Some False Cons.prems obtain s1 where
        r: "readGaussians w s (drop k ?lines) = Inr s1"
        and rest: "read_walkers w inp is
           (s1\<lparr>ifiles := (ifiles s1)[i := Some (max k (length ?lines))]\<rparr>) = Inr s'"
        by (auto simp: Let_def split: sum.splits)
      from r obtain hs1 where h1: "s1 = fold (\<lambda>h u. addGaussian w u h) hs1 s"
        unfolding readGaussians_def by (blast dest: readGaussians_loop_replay)
      from Cons.IH [OF rest] obtain hs2 where
        a: "same_bias s' (fold (\<lambda>h u. addGaussian w u h) hs2
              (s1\<lparr>ifiles := (ifiles s1)[i := Some (max k (length ?lines))]\<rparr>))"
        by blast
      have "same_bias (s1\<lparr>ifiles := (ifiles s1)[i := Some (max k (length ?lines))]\<rparr>) s1"
        by simp
      from replay_same [OF this, of w hs2] a
      have "same_bias s' (fold (\<lambda>h u. addGaussian w u h) hs2 s1)" by simp
      then have "same_bias s' (fold (\<lambda>h u. addGaussian w u h) (hs1 @ hs2) s)"
        unfolding h1 by simp
      then show ?thesis by blast
    qed
  qed
qed


lemma update_replay:
  assumes u: "update w s inp = Inr s'"
  shows "\<exists>hs. same_bias s' (fold (\<lambda>h u. addGaussian w u h) hs
                  (if nowAddAHill s inp then addGaussian w s (newhill w s inp) else s))
            \<and> (mw_n s \<le> 1 \<or> getStep inp smod mw_rstride s \<noteq> 0 \<longrightarrow> hs = [])"
proof -
  let ?d = "if nowAddAHill s inp then addGaussian w s (newhill w s inp) else s"
  from u obtain s1 where d: "dump_grid (deposit w s inp) inp = Inr s1"
    and r: "(if mw_n s1 > 1 then
             (if mw_rstride s1 = 0 then Inl (Crash ''remainder by zero'')
              else if getStep inp smod mw_rstride s1 = 0
              then read_walkers w inp [0..<nat (mw_n s1)] s1
              else Inr s1)
           else Inr s1) = Inr s'"
    by (auto simp: update_def split: sum.splits)
  have dep: "same_bias (deposit w s inp) ?d"
    "mw_n (deposit w s inp) = mw_n s" "mw_rstride (deposit w s inp) = mw_rstride s"
    by (simp_all add: deposit_def Let_def addGaussian_frame)
  have dmp: "same_bias s1 (deposit w s inp)" "mw_n s1 = mw_n (deposit w s inp)"
    "mw_rstride s1 = mw_rstride (deposit w s inp)"
    using d by (auto simp: dump_grid_def split: if_splits option.splits)
  have s1: "same_bias s1 ?d" "mw_n s1 = mw_n s" "mw_rstride s1 = mw_rstride s"
    using dep dmp by simp_all
  show ?thesis
  proof (cases "mw_n s \<le> 1 \<or> getStep inp smod mw_rstride s \<noteq> 0")
    case True
    with r s1(2,3) have "s' = s1" by (auto split: if_splits)
    with s1(1) have "same_bias s' (fold (\<lambda>h u. addGaussian w u h) [] ?d)" by simp
    then show ?thesis by blast
  next
    case False
    with r s1(2,3) have "read_walkers w inp [0..<nat (mw_n s1)] s1 = Inr s'"
      by (auto split: if_splits)
    from read_walkers_replay [OF this] obtain hs where
      a: "same_bias s' (fold (\<lambda>h u. addGaussian w u h) hs s1)" by blast
    from replay_same [OF s1(1), of w hs] a
    have "same_bias s' (fold (\<lambda>h u. addGaussian w u h) hs ?d)" by simp
    with False show ?thesis by blast
  qed
qed

lemma addGaussian_grid:
  assumes "grid s" "BiasGrid s = Some g" "1 \<le> comm_size w"
    and len: "\<And>c. length (getPoint w g c) = ncv w"
    and inv: "\<And>g' c v d c'. getPoint w (addValueAndDerivatives w g' c v d) c' = getPoint w g' c'"
  shows "BiasGrid (addGaussian w s hill)
       = Some (fold (\<lambda>c g'. addValueAndDerivatives w g' c
                        (gauss_bias w s (getPoint w g c) hill) (gauss_der w s (getPoint w g c) hill))
                 (getNeighbors w g (center hill) (getGaussianSupport w g hill)) g)"
proof (cases "comm_size w = 1")
  case True
  show ?thesis by (rule splat_serial [OF assms(1,2) True len inv])
next
  case False
  with assms(3) have P: "1 < comm_size w" by simp
  show ?thesis by (rule splat_parallel [OF assms(1,2) P len])
qed


text \<open>
  C9. The constructor returns a state with \<open>isFirstStep\<close> set and nothing printed. The
  first call of \<open>update\<close> after construction deposits no hill, whatever the step number
  (also when it is a multiple of the stride, such as step 0): nothing is printed, and
  the hills and the grid are those of the constructed state, to which a run of several
  walkers adds, at a reading step, the hills read from the files of the other walkers.
  The call clears the flag. On every later call a hill is deposited exactly when the
  stride divides the step number: the record is printed exactly then, and the hills and
  the grid after the call are those that \<open>addGaussian\<close> makes of the new hill when it
  does, and are unchanged when it does not (up to the hills of the other walkers,
  again). In list mode the new hill is appended to the stored hills; in grid mode the
  stored hills stay as they are and the grid is the old one with the output of the
  Gaussian evaluator added at each neighbour of the hill's centre.
\<close>

theorem deposition_schedule:
  "(MetaD_ctor w opts = Inr s0 \<longrightarrow> isFirstStep s0 \<and> hillsOfile s0 = [] \<and> 0 < stride s0)
   \<and> (MetaD_ctor w opts = Inr s0 \<and> update w s0 inp = Inr s1 \<longrightarrow>
        hillsOfile s1 = []
      \<and> (mw_n s0 \<le> 1 \<longrightarrow> hills s1 = hills s0 \<and> BiasGrid s1 = BiasGrid s0)
      \<and> (\<exists>hs. hills s1 = hills (fold (\<lambda>h u. addGaussian w u h) hs s0)
             \<and> BiasGrid s1 = BiasGrid (fold (\<lambda>h u. addGaussian w u h) hs s0)
             \<and> (mw_n s0 \<le> 1 \<or> getStep inp smod mw_rstride s0 \<noteq> 0 \<longrightarrow> hs = [])))
   \<and> (update w s inp = Inr s' \<longrightarrow>
        \<not> isFirstStep s' \<and> stride s' = stride s
      \<and> (isFirstStep s \<longrightarrow> hillsOfile s' = hillsOfile s)
      \<and> (\<not> isFirstStep s \<and> 0 < stride s \<longrightarrow>
            hillsOfile s' =
              (if stride s dvd getStep inp
               then hillsOfile s @ [writeGaussian w (addGaussian w s (newhill w s inp))
                                      (getStep inp) (wallclock inp) (newhill w s inp)]
               else hillsOfile s))
      \<and> (\<not> grid s \<and> mw_n s \<le> 1 \<and> 0 < stride s \<longrightarrow>
            hills s' = (if \<not> isFirstStep s \<and> stride s dvd getStep inp
                        then hills s @ [newhill w s inp] else hills s))
      \<and> (mw_n s \<le> 1 \<and> 0 < stride s \<and> (isFirstStep s \<or> \<not> stride s dvd getStep inp) \<longrightarrow>
            hills s' = hills s \<and> BiasGrid s' = BiasGrid s)
      \<and> (grid s \<and> BiasGrid s = Some g \<and> 1 \<le> comm_size w
           \<and> (\<forall>c. length (getPoint w g c) = ncv w)
           \<and> (\<forall>g' c v d c'. getPoint w (addValueAndDerivatives w g' c v d) c' = getPoint w g' c')
           \<and> mw_n s \<le> 1 \<and> 0 < stride s \<and> \<not> isFirstStep s \<and> stride s dvd getStep inp \<longrightarrow>
            hills s' = hills s
          \<and> BiasGrid s' = Some (fold (\<lambda>c g'. addValueAndDerivatives w g' c
                                   (gauss_bias w s (getPoint w g c) (newhill w s inp))
                                   (gauss_der w s (getPoint w g c) (newhill w s inp)))
                               (getNeighbors w g (center (newhill w s inp))
                                  (getGaussianSupport w g (newhill w s inp))) g))
      \<and> (0 < stride s \<longrightarrow>
           (\<exists>hs. hills s' = hills (fold (\<lambda>h u. addGaussian w u h) hs
                               (if \<not> isFirstStep s \<and> stride s dvd getStep inp
                                then addGaussian w s (newhill w s inp) else s))
              \<and> BiasGrid s' = BiasGrid (fold (\<lambda>h u. addGaussian w u h) hs
                               (if \<not> isFirstStep s \<and> stride s dvd getStep inp
                                then addGaussian w s (newhill w s inp) else s))
              \<and> (mw_n s \<le> 1 \<or> getStep inp smod mw_rstride s \<noteq> 0 \<longrightarrow> hs = []))))"
proof (intro conjI impI)
  assume c: "MetaD_ctor w opts = Inr s0"
  show "isFirstStep s0" "hillsOfile s0 = []" "0 < stride s0"
    using ctor_fields [OF c] by simp_all
next
  assume "MetaD_ctor w opts = Inr s0 \<and> update w s0 inp = Inr s1"
  then have c: "MetaD_ctor w opts = Inr s0" and u: "update w s0 inp = Inr s1" by simp_all
  have first: "\<not> nowAddAHill s0 inp"
    using ctor_fields(1) [OF c] by (simp add: nowAddAHill_def)
  show "hillsOfile s1 = []"
    using update_frame(6) [OF u] first ctor_fields(2) [OF c] by (simp add: deposit_fields)
  from update_replay [OF u] first obtain hs where
    hs: "same_bias s1 (fold (\<lambda>h u. addGaussian w u h) hs s0)"
      "mw_n s0 \<le> 1 \<or> getStep inp smod mw_rstride s0 \<noteq> 0 \<longrightarrow> hs = []"
    by auto
  show "hills s1 = hills s0" "BiasGrid s1 = BiasGrid s0" if "mw_n s0 \<le> 1"
    using hs that by simp_all
  show "\<exists>hs. hills s1 = hills (fold (\<lambda>h u. addGaussian w u h) hs s0)
             \<and> BiasGrid s1 = BiasGrid (fold (\<lambda>h u. addGaussian w u h) hs s0)
             \<and> (mw_n s0 \<le> 1 \<or> getStep inp smod mw_rstride s0 \<noteq> 0 \<longrightarrow> hs = [])"
    using hs by blast
next
  assume u: "update w s inp = Inr s'"
  show "\<not> isFirstStep s'" "stride s' = stride s"
    using update_frame [OF u] by simp_all
  show "hillsOfile s' = hillsOfile s" if "isFirstStep s"
    using update_frame(6) [OF u] that by (simp add: deposit_fields nowAddAHill_def)
  show "hillsOfile s' =
              (if stride s dvd getStep inp
               then hillsOfile s @ [writeGaussian w (addGaussian w s (newhill w s inp))
                                      (getStep inp) (wallclock inp) (newhill w s inp)]
               else hillsOfile s)" if "\<not> isFirstStep s \<and> 0 < stride s"
    using update_frame(6) [OF u] that
    by (simp add: deposit_fields nowAddAHill_def smod_zero_iff)
  show "hills s' = (if \<not> isFirstStep s \<and> stride s dvd getStep inp
                        then hills s @ [newhill w s inp] else hills s)"
    if "\<not> grid s \<and> mw_n s \<le> 1 \<and> 0 < stride s"
    using update_frame(7) [OF u] that
    by (auto simp: deposit_hills nowAddAHill_def smod_zero_iff)
  from update_replay [OF u] obtain hs where
    hs: "same_bias s' (fold (\<lambda>h u. addGaussian w u h) hs
                  (if nowAddAHill s inp then addGaussian w s (newhill w s inp) else s))"
      "mw_n s \<le> 1 \<or> getStep inp smod mw_rstride s \<noteq> 0 \<longrightarrow> hs = []"
    by blast
  have now: "nowAddAHill s inp \<longleftrightarrow> \<not> isFirstStep s \<and> stride s dvd getStep inp"
    if "0 < stride s"
    using that by (auto simp: nowAddAHill_def smod_zero_iff)
  show "hills s' = hills s" "BiasGrid s' = BiasGrid s"
    if a: "mw_n s \<le> 1 \<and> 0 < stride s \<and> (isFirstStep s \<or> \<not> stride s dvd getStep inp)"
  proof -
    from a have "\<not> nowAddAHill s inp" "hs = []" using now hs(2) by auto
    with hs(1) show "hills s' = hills s" "BiasGrid s' = BiasGrid s" by simp_all
  qed
  show "hills s' = hills s"
    "BiasGrid s' = Some (fold (\<lambda>c g'. addValueAndDerivatives w g' c
                                   (gauss_bias w s (getPoint w g c) (newhill w s inp))
                                   (gauss_der w s (getPoint w g c) (newhill w s inp)))
                               (getNeighbors w g (center (newhill w s inp))
                                  (getGaussianSupport w g (newhill w s inp))) g)"
    if a: "grid s \<and> BiasGrid s = Some g \<and> 1 \<le> comm_size w
           \<and> (\<forall>c. length (getPoint w g c) = ncv w)
           \<and> (\<forall>g' c v d c'. getPoint w (addValueAndDerivatives w g' c v d) c' = getPoint w g' c')
           \<and> mw_n s \<le> 1 \<and> 0 < stride s \<and> \<not> isFirstStep s \<and> stride s dvd getStep inp"
  proof -
    from a have n: "nowAddAHill s inp" "hs = []" using now hs(2) by auto
    with hs(1) have e: "hills s' = hills (addGaussian w s (newhill w s inp))"
      "BiasGrid s' = BiasGrid (addGaussian w s (newhill w s inp))" by simp_all
    from a show "hills s' = hills s" unfolding e by (simp add: addGaussian_def Let_def)
    have g: "grid s" "BiasGrid s = Some g" "1 \<le> comm_size w" using a by simp_all
    have len: "length (getPoint w g c) = ncv w" for c using a by simp
    have inv: "getPoint w (addValueAndDerivatives w g' c v d) c' = getPoint w g' c'"
      for g' c v d c' using a by simp
    show "BiasGrid s' = Some (fold (\<lambda>c g'. addValueAndDerivatives w g' c
                                   (gauss_bias w s (getPoint w g c) (newhill w s inp))
                                   (gauss_der w s (getPoint w g c) (newhill w s inp)))
                               (getNeighbors w g (center (newhill w s inp))
                                  (getGaussianSupport w g (newhill w s inp))) g)"
      unfolding e by (rule addGaussian_grid [OF g len inv])
  qed
  show "\<exists>hs. hills s' = hills (fold (\<lambda>h u. addGaussian w u h) hs
                               (if \<not> isFirstStep s \<and> stride s dvd getStep inp
                                then addGaussian w s (newhill w s inp) else s))
              \<and> BiasGrid s' = BiasGrid (fold (\<lambda>h u. addGaussian w u h) hs
                               (if \<not> isFirstStep s \<and> stride s dvd getStep inp
                                then addGaussian w s (newhill w s inp) else s))
              \<and> (mw_n s \<le> 1 \<or> getStep inp smod mw_rstride s \<noteq> 0 \<longrightarrow> hs = [])"
    if "0 < stride s"
    using hs unfolding now [OF that] by blast
qed


lemma ig_first:
  "update (plain_world 1 1) ig_state (step_in 0 [2]) = Inr (ig_state\<lparr>isFirstStep := False\<rparr>)"
  by (simp add: update_def deposit_def dump_grid_def nowAddAHill_def step_in_sel ig_fields)

lemma ig_second:
  "update (plain_world 1 1) (ig_state\<lparr>isFirstStep := False\<rparr>) (step_in 1 [2]) = Inr ig_final"
proof -
  define w where "w = plain_world 1 1"
  have nh: "newhill w (ig_state\<lparr>isFirstStep := False\<rparr>) (step_in 1 [2])
          = Gaussian_ctor [2] [1] 1 False"
    by (simp add: newhill_def getHeight_def ig_fields step_in_sel)
  have ad: "addGaussian w (ig_state\<lparr>isFirstStep := False\<rparr>) (Gaussian_ctor [2] [1] 1 False)
     = ig_state\<lparr>isFirstStep := False, BiasGrid := Some ig_grid\<rparr>"
    unfolding w_def by (rule ig_add)
  have "update w (ig_state\<lparr>isFirstStep := False\<rparr>) (step_in 1 [2]) = Inr ig_final"
    unfolding update_def deposit_def ig_final_def w_def [symmetric]
    by (simp add: nh ad Let_def dump_grid_def nowAddAHill_def ig_fields signed_modulo_int_def
        step_in_sel)
  then show ?thesis unfolding w_def .
qed

lemma walker_update:
  "update (plain_world 1 1) walker_state walker_step
     = Inr (walker_state\<lparr>isFirstStep := False, hills := [Gaussian_ctor [1] [0.2] 0.3 False],
                          ifiles := [None, Some 1]\<rparr>)"
proof -
  have "update (plain_world 1 1) walker_state walker_step =
           (case readGaussians (plain_world 1 1) (walker_state\<lparr>isFirstStep := False\<rparr>)
                   (drop 0 [wt_line\<lparr>f_clock := Some 0\<rparr>]) of
              Inl e \<Rightarrow> Inl e
            | Inr sr \<Rightarrow> Inr (sr\<lparr>ifiles := (ifiles sr)[1 := Some (max 0
                   (length [wt_line\<lparr>f_clock := Some 0\<rparr>]))]\<rparr>))"
    by (rule peer_reads [OF walker_dump]) (use walker_step_sel in \<open>simp_all add: walker_fields\<close>)
  then show ?thesis using walker_read by (simp add: walker_fields)
qed

theorem deposition_schedule_witness:
  "hillsOfile stepped_state = [] \<and> hills stepped_state = hills fresh_state
   \<and> BiasGrid stepped_state = BiasGrid fresh_state
   \<and> \<not> isFirstStep stepped_state
   \<and> (\<exists>s2. update (plain_world 1 1) stepped_state (step_in 500 [1]) = Inr s2
          \<and> hills s2 = hills stepped_state
                        @ [newhill (plain_world 1 1) stepped_state (step_in 500 [1])])
   \<and> BiasGrid (ig_state\<lparr>isFirstStep := False\<rparr>) = BiasGrid ig_state
   \<and> hillsOfile (ig_state\<lparr>isFirstStep := False\<rparr>) = []
   \<and> fold (\<lambda>c g'. addValueAndDerivatives (plain_world 1 1) g' c
              (gauss_bias (plain_world 1 1) (ig_state\<lparr>isFirstStep := False\<rparr>)
                 (getPoint (plain_world 1 1)
                    \<lparr>g_min = [0], g_dx = [1], g_nbin = [4], g_cells = []\<rparr> c)
                 (newhill (plain_world 1 1) (ig_state\<lparr>isFirstStep := False\<rparr>) (step_in 1 [2])))
              (gauss_der (plain_world 1 1) (ig_state\<lparr>isFirstStep := False\<rparr>)
                 (getPoint (plain_world 1 1)
                    \<lparr>g_min = [0], g_dx = [1], g_nbin = [4], g_cells = []\<rparr> c)
                 (newhill (plain_world 1 1) (ig_state\<lparr>isFirstStep := False\<rparr>) (step_in 1 [2]))))
         (getNeighbors (plain_world 1 1) \<lparr>g_min = [0], g_dx = [1], g_nbin = [4], g_cells = []\<rparr>
            (center (newhill (plain_world 1 1) (ig_state\<lparr>isFirstStep := False\<rparr>) (step_in 1 [2])))
            (getGaussianSupport (plain_world 1 1)
               \<lparr>g_min = [0], g_dx = [1], g_nbin = [4], g_cells = []\<rparr>
               (newhill (plain_world 1 1) (ig_state\<lparr>isFirstStep := False\<rparr>) (step_in 1 [2]))))
         \<lparr>g_min = [0], g_dx = [1], g_nbin = [4], g_cells = []\<rparr>
       = ig_grid
   \<and> (\<exists>hs. [Gaussian_ctor [1] [0.2] 0.3 False]
             = hills (fold (\<lambda>h u. addGaussian (plain_world 1 1) u h) hs walker_state))"
proof -
  define w where "w = plain_world 1 1"
  define G where "G = \<lparr>g_min = [0::real], g_dx = [1::real], g_nbin = [4::nat],
                       g_cells = ([] :: (nat list \<times> real \<times> real list) list)\<rparr>"
  define S where "S = ig_state\<lparr>isFirstStep := False\<rparr>"
  have cp: "MetaD_ctor w plain_options = Inr fresh_state" unfolding w_def by (rule ctor_plain)
  have uf: "update w fresh_state (step_in 0 [1]) = Inr stepped_state"
    unfolding w_def by (rule update_fresh)
  note T = deposition_schedule [where w = w and opts = plain_options
      and ?s0.0 = fresh_state and inp = "step_in 0 [1]" and ?s1.0 = stepped_state]
  from T cp uf fresh_fields(3)
  have a: "hillsOfile stepped_state = []" "hills stepped_state = hills fresh_state"
    "BiasGrid stepped_state = BiasGrid fresh_state"
    by simp_all
  obtain s2 where u: "update w stepped_state (step_in 500 [1]) = Inr s2"
    using update_stepped unfolding w_def by blast
  have f: "\<not> grid stepped_state \<and> mw_n stepped_state \<le> 1 \<and> 0 < stride stepped_state"
    "\<not> isFirstStep stepped_state" "stride stepped_state dvd getStep (step_in 500 [1])"
    by (simp_all add: stepped_state_def fresh_fields step_in_sel)
  note T2 = deposition_schedule [where w = w and s = stepped_state
      and inp = "step_in 500 [1]" and s' = s2]
  from T2 u f have b: "hills s2 = hills stepped_state @ [newhill w stepped_state (step_in 500 [1])]"
    by simp
  have ci: "MetaD_ctor w interval_grid_options = Inr ig_state" unfolding w_def by (rule ctor_ig)
  have u1: "update w ig_state (step_in 0 [2]) = Inr S" unfolding w_def S_def by (rule ig_first)
  have u2: "update w S (step_in 1 [2]) = Inr ig_final" unfolding w_def S_def by (rule ig_second)
  note T3 = deposition_schedule [where w = w and opts = interval_grid_options
      and ?s0.0 = ig_state and inp = "step_in 0 [2]" and ?s1.0 = S]
  from T3 ci u1 ig_fields(13)
  have c: "BiasGrid S = BiasGrid ig_state" "hillsOfile S = []" by simp_all
  have sel: "comm_size w = 1" "ncv w = 1" "getPoint w = dg_getPoint"
    "addValueAndDerivatives w = dg_addValueAndDerivatives"
    by (simp_all add: w_def plain_world_def)
  have gh: "grid S \<and> BiasGrid S = Some G \<and> 1 \<le> comm_size w
           \<and> (\<forall>c. length (getPoint w G c) = ncv w)
           \<and> (\<forall>g' c v d c'. getPoint w (addValueAndDerivatives w g' c v d) c' = getPoint w g' c')
           \<and> mw_n S \<le> 1 \<and> 0 < stride S \<and> \<not> isFirstStep S \<and> stride S dvd getStep (step_in 1 [2])"
    by (simp add: S_def G_def ig_fields sel dg_getPoint_def dg_addValueAndDerivatives_def Let_def
        step_in_sel)
  note T4 = deposition_schedule [where w = w and s = S and inp = "step_in 1 [2]"
      and s' = ig_final and g = G]
  from T4 u2 gh have "BiasGrid ig_final
     = Some (fold (\<lambda>c g'. addValueAndDerivatives w g' c
                                   (gauss_bias w S (getPoint w G c) (newhill w S (step_in 1 [2])))
                                   (gauss_der w S (getPoint w G c) (newhill w S (step_in 1 [2]))))
                               (getNeighbors w G (center (newhill w S (step_in 1 [2])))
                                  (getGaussianSupport w G (newhill w S (step_in 1 [2])))) G)"
    by blast
  then have d: "fold (\<lambda>c g'. addValueAndDerivatives w g' c
                                   (gauss_bias w S (getPoint w G c) (newhill w S (step_in 1 [2])))
                                   (gauss_der w S (getPoint w G c) (newhill w S (step_in 1 [2]))))
                               (getNeighbors w G (center (newhill w S (step_in 1 [2])))
                                  (getGaussianSupport w G (newhill w S (step_in 1 [2])))) G
       = ig_grid"
    unfolding ig_final_fields(5) by simp
  have cw: "MetaD_ctor w walker_options = Inr walker_state" unfolding w_def by (rule ctor_walker)
  have uw: "update w walker_state walker_step
     = Inr (walker_state\<lparr>isFirstStep := False, hills := [Gaussian_ctor [1] [0.2] 0.3 False],
                          ifiles := [None, Some 1]\<rparr>)"
    unfolding w_def by (rule walker_update)
  note T5 = deposition_schedule [where w = w and opts = walker_options
      and ?s0.0 = walker_state and inp = walker_step
      and ?s1.0 = "walker_state\<lparr>isFirstStep := False,
           hills := [Gaussian_ctor [1] [0.2] 0.3 False], ifiles := [None, Some 1]\<rparr>"]
  from T5 cw uw obtain hs where
    "hills (walker_state\<lparr>isFirstStep := False,
           hills := [Gaussian_ctor [1] [0.2] 0.3 False], ifiles := [None, Some 1]\<rparr>)
       = hills (fold (\<lambda>h u. addGaussian w u h) hs walker_state)"
    by blast
  then have e: "\<exists>hs. [Gaussian_ctor [1] [0.2] 0.3 False]
             = hills (fold (\<lambda>h u. addGaussian w u h) hs walker_state)"
    by auto
  show ?thesis
    using a f(2) u b c d e unfolding w_def G_def S_def by blast
qed

end
